theory Spec2Isabelle
  imports Complex_Main
begin

section \<open>PHP string primitives used by \<open>api/trace.php\<close>\<close>

text \<open>
  PHP strings are byte strings; a \<^typ>\<open>string\<close> is a list of 8-bit characters.
  Characters are compared through their byte value.
\<close>

definition byte :: "char \<Rightarrow> nat" where
  "byte c = of_char c"

definition in_range :: "char \<Rightarrow> char \<Rightarrow> char \<Rightarrow> bool" where
  "in_range lo hi c = (byte lo \<le> byte c \<and> byte c \<le> byte hi)"

text \<open>\<open>trim\<close> with its default character list: space, tab, newline, carriage return,
  NUL and vertical tab are stripped from both ends.\<close>

definition trim_char :: "char \<Rightarrow> bool" where
  "trim_char c = (byte c = 32 \<or> byte c = 9 \<or> byte c = 10 \<or> byte c = 13 \<or> byte c = 0 \<or> byte c = 11)"

definition php_trim :: "string \<Rightarrow> string" where
  "php_trim s = rev (dropWhile trim_char (rev (dropWhile trim_char s)))"

text \<open>\<open>empty\<close> on a string: the empty string and the string \<open>"0"\<close> are both empty.\<close>

definition php_empty :: "string \<Rightarrow> bool" where
  "php_empty s = (s = [] \<or> s = ''0'')"

definition lower_char :: "char \<Rightarrow> char" where
  "lower_char c = (if in_range CHR ''A'' CHR ''Z'' c then char_of (byte c + 32) else c)"

definition upper_char :: "char \<Rightarrow> char" where
  "upper_char c = (if in_range CHR ''a'' CHR ''z'' c then char_of (byte c - 32) else c)"

definition strtoupper :: "string \<Rightarrow> string" where
  "strtoupper s = map upper_char s"

fun starts_with :: "string \<Rightarrow> string \<Rightarrow> bool" where
  "starts_with [] s = True"
| "starts_with (p # ps) [] = False"
| "starts_with (p # ps) (c # cs) = (p = c \<and> starts_with ps cs)"

text \<open>\<open>stripos\<close>: the offset of the first case-insensitive occurrence of the needle,
  \<open>None\<close> for PHP's \<open>false\<close>.\<close>

fun find_from :: "string \<Rightarrow> string \<Rightarrow> nat \<Rightarrow> nat option" where
  "find_from needle [] i = (if needle = [] then Some i else None)"
| "find_from needle (c # cs) i =
     (if starts_with needle (c # cs) then Some i else find_from needle cs (Suc i))"

definition stripos :: "string \<Rightarrow> string \<Rightarrow> nat option" where
  "stripos haystack needle = find_from (map lower_char needle) (map lower_char haystack) 0"

section \<open>Regular expressions as \<open>preg_match\<close> runs them\<close>

text \<open>
  The four patterns of the endpoint are sequences of quantified character classes, with
  one end anchor. A pattern is a list of items; matching is greedy with backtracking, in
  the order PCRE tries the alternatives, and yields the text consumed by each item, from
  which the capture group is read.
\<close>

datatype cls = Digit | Hex | HexColon | Space | TargetChar | Lit char

fun cls_mem :: "cls \<Rightarrow> char \<Rightarrow> bool" where
  "cls_mem Digit c = in_range CHR ''0'' CHR ''9'' c"
| "cls_mem Hex c = (in_range CHR ''0'' CHR ''9'' c \<or> in_range CHR ''a'' CHR ''f'' c
      \<or> in_range CHR ''A'' CHR ''F'' c)"
| "cls_mem HexColon c = (in_range CHR ''0'' CHR ''9'' c \<or> in_range CHR ''a'' CHR ''f'' c
      \<or> in_range CHR ''A'' CHR ''F'' c \<or> c = CHR '':'')"
| "cls_mem Space c = (byte c = 32 \<or> (9 \<le> byte c \<and> byte c \<le> 13))"
| "cls_mem TargetChar c = (in_range CHR ''a'' CHR ''z'' c \<or> in_range CHR ''A'' CHR ''Z'' c
      \<or> in_range CHR ''0'' CHR ''9'' c \<or> c = CHR ''.'' \<or> c = CHR ''-'')"
| "cls_mem (Lit x) c = (c = x)"

datatype item = Rep cls nat "nat option" | Eos

abbreviation one :: "char \<Rightarrow> item" where
  "one x \<equiv> Rep (Lit x) 1 (Some 1)"

abbreviation opt :: "char \<Rightarrow> item" where
  "opt x \<equiv> Rep (Lit x) 0 (Some 1)"

abbreviation plus :: "cls \<Rightarrow> item" where
  "plus c \<equiv> Rep c 1 None"

abbreviation star :: "cls \<Rightarrow> item" where
  "star c \<equiv> Rep c 0 None"

text \<open>The longest run the quantifier may take at the head of the subject.\<close>

fun greedy :: "cls \<Rightarrow> nat option \<Rightarrow> string \<Rightarrow> nat" where
  "greedy c hi [] = 0"
| "greedy c hi (x # xs) =
     (if hi = Some 0 \<or> \<not> cls_mem c x then 0
      else Suc (greedy c (map_option (\<lambda>h. h - 1) hi) xs))"

text \<open>\<open>rmatch\<close> matches the items at the head of the subject; \<open>retry\<close> is the
  backtracking loop of one quantifier, from the longest run down to its minimum.\<close>

function rmatch :: "item list \<Rightarrow> string \<Rightarrow> string list option"
  and retry :: "item list \<Rightarrow> string \<Rightarrow> nat \<Rightarrow> nat \<Rightarrow> string list option" where
  "rmatch [] s = Some []"
| "rmatch (Eos # its) s =
     (if s = [] \<or> s = [CHR 0x0A]
      then (case rmatch its s of None \<Rightarrow> None | Some r \<Rightarrow> Some ([] # r))
      else None)"
| "rmatch (Rep c lo hi # its) s = retry its s lo (greedy c hi s)"
| "retry its s lo k =
     (if k < lo then None
      else case rmatch its (drop k s) of
             Some r \<Rightarrow> Some (take k s # r)
           | None \<Rightarrow> (if k = 0 then None else retry its s lo (k - 1)))"
  by pat_completeness auto
termination
  by (relation "measures [\<lambda>x. case x of Inl (its, s) \<Rightarrow> 2 * length its
                                    | Inr (its, s, lo, k) \<Rightarrow> 2 * length its + 1,
                          \<lambda>x. case x of Inl (its, s) \<Rightarrow> 0 | Inr (its, s, lo, k) \<Rightarrow> k]") auto

text \<open>An unanchored pattern is tried at each offset of the subject, leftmost first.\<close>

fun rsearch :: "item list \<Rightarrow> string \<Rightarrow> string list option" where
  "rsearch its [] = rmatch its []"
| "rsearch its (c # s) =
     (case rmatch its (c # s) of Some r \<Rightarrow> Some r | None \<Rightarrow> rsearch its s)"

section \<open>Input validation\<close>

text \<open>\<open>/^[a-zA-Z0-9.-]+$/\<close>\<close>

definition target_re :: "item list" where
  "target_re = [plus TargetChar, Eos]"

section \<open>Parsing the traceroute output\<close>

text \<open>\<open>/^\s*\d+\s+\*\s+\*\s+\*/\<close>\<close>

definition stars_re :: "item list" where
  "stars_re = [star Space, plus Digit, plus Space, one CHR ''*'', plus Space, one CHR ''*'',
     plus Space, one CHR ''*'']"

text \<open>\<open>/([0-9a-fA-F]{1,4}:[0-9a-fA-F:]+)/\<close>; the group is the whole match.\<close>

definition ipv6_re :: "item list" where
  "ipv6_re = [Rep Hex 1 (Some 4), one CHR '':'', plus HexColon]"

text \<open>\<open>/\[?(\d{1,3}\.\d{1,3}\.\d{1,3}\.\d{1,3})\]?/\<close>; the group is what the seven
  items between the optional brackets consume.\<close>

definition ipv4_re :: "item list" where
  "ipv4_re = [opt CHR ''['', Rep Digit 1 (Some 3), one CHR ''.'', Rep Digit 1 (Some 3),
     one CHR ''.'', Rep Digit 1 (Some 3), one CHR ''.'', Rep Digit 1 (Some 3), opt CHR '']'']"

text \<open>Whether a line is skipped: blank (or \<open>"0"\<close>) after trimming, a
  \<open>Request timed out\<close> line, or a hop of asterisks.\<close>

definition skipped :: "string \<Rightarrow> bool" where
  "skipped line =
     (php_empty (php_trim line) \<or> stripos line ''Request timed out'' \<noteq> None
      \<or> rmatch stars_re line \<noteq> None)"

text \<open>The address of a line that is not skipped: IPv6 first, then IPv4, else \<open>null\<close>.\<close>

definition line_ip :: "string \<Rightarrow> string option" where
  "line_ip line =
     (case rsearch ipv6_re line of
        Some ms \<Rightarrow> Some (concat ms)
      | None \<Rightarrow>
          (case rsearch ipv4_re line of
             Some ms \<Rightarrow> Some (concat (take 7 (drop 1 ms)))
           | None \<Rightarrow> None))"

text \<open>The \<open>foreach\<close> over the output lines, with the array \<open>$ips\<close> as loop state.\<close>

fun parse_lines :: "string list \<Rightarrow> string list \<Rightarrow> string list" where
  "parse_lines [] ips = ips"
| "parse_lines (line # rest) ips =
     (if skipped line then parse_lines rest ips
      else case line_ip line of
             None \<Rightarrow> parse_lines rest ips
           | Some ip \<Rightarrow>
               (if ip \<in> set ips then parse_lines rest ips
                else parse_lines rest (ips @ [ip])))"

definition parseTraceroute :: "string list \<Rightarrow> bool \<Rightarrow> string list" where
  "parseTraceroute output isWindows = parse_lines output []"

section \<open>Values, replies and the outside world\<close>

text \<open>
  PHP values as they reach \<open>json_encode\<close>: a list array is \<open>PList\<close>, an array with
  string keys is \<open>PMap\<close>, its pairs in insertion order. A float is a finite number, an
  infinity (what \<open>json_decode\<close> makes of \<open>1e999\<close>) or not a number.
\<close>

datatype php_float = Finite rat | PosInf | NegInf | NaN

datatype php_val =
    PNull
  | PBool bool
  | PInt int
  | PFloat php_float
  | PStr string
  | PList "php_val list"
  | PMap "(string \<times> php_val) list"

text \<open>
  What one geolocation request gives back, after \<open>file_get_contents\<close> and
  \<open>json_decode($response, true)\<close>: no response at all (\<open>false\<close>: network failure or
  timeout), or the value the body decodes to, whatever it is: \<open>null\<close> when the body is
  not JSON (or is the JSON \<open>null\<close>), a scalar, a list, or the array of the members of a
  JSON object.
\<close>

datatype geo_reply = NoResponse | Body php_val

text \<open>What PHP 8 throws when the offset \<open>'status'\<close> of a string is read, with its
  message.\<close>

datatype throwable = TypeError string

text \<open>The external collaborators of one request: the platform name, the shell quoting of
  the platform, the process runner (output lines and exit status of a command), the
  geolocation service by URL, the clock read at assembly, and the interpreter's wording of
  the message of that \<open>TypeError\<close>, which differs between releases.\<close>

record env =
  PHP_OS :: string
  escapeshellarg :: "string \<Rightarrow> string"
  exec :: "string \<Rightarrow> string list \<times> int"
  fetch :: "string \<Rightarrow> geo_reply"
  date :: string
  offset_error :: string

text \<open>The external calls a request makes, in order.\<close>

datatype event = Exec string | Fetch string | Usleep nat

text \<open>A value in a condition: \<open>null\<close>, \<open>false\<close>, zero, the strings \<open>""\<close> and
  \<open>"0"\<close> and the empty array are false.\<close>

fun php_truthy :: "php_val \<Rightarrow> bool" where
  "php_truthy PNull = False"
| "php_truthy (PBool b) = b"
| "php_truthy (PInt i) = (i \<noteq> 0)"
| "php_truthy (PFloat f) = (f \<noteq> Finite 0)"
| "php_truthy (PStr s) = (\<not> php_empty s)"
| "php_truthy (PList xs) = (xs \<noteq> [])"
| "php_truthy (PMap m) = (m \<noteq> [])"

text \<open>Reading the member \<open>k\<close> of an array: a missing key reads as \<open>null\<close>.\<close>

definition array_get :: "(string \<times> php_val) list \<Rightarrow> string \<Rightarrow> php_val" where
  "array_get a k = (case map_of a k of Some v \<Rightarrow> v | None \<Rightarrow> PNull)"

text \<open>Reading \<open>$data[k]\<close> for one of the keys \<open>'status'\<close> and \<open>'query'\<close>: the
  member of an array (\<open>null\<close> on a list, whose keys are numbers), \<open>null\<close> on
  \<open>null\<close>, a boolean or a number, and a \<open>TypeError\<close> on a string.\<close>

fun read_offset :: "env \<Rightarrow> php_val \<Rightarrow> string \<Rightarrow> throwable + php_val" where
  "read_offset e (PMap m) k = Inr (array_get m k)"
| "read_offset e (PStr s) k = Inl (TypeError (offset_error e))"
| "read_offset e v k = Inr PNull"

text \<open>Reading \<open>$data[k] ?? null\<close>: as above, but nothing is thrown.\<close>

fun coalesce_offset :: "php_val \<Rightarrow> string \<Rightarrow> php_val" where
  "coalesce_offset (PMap m) k = array_get m k"
| "coalesce_offset v k = PNull"

text \<open>Writing \<open>$a[k] = v\<close>: an existing key keeps its place, a new key goes last.\<close>

fun array_set :: "(string \<times> php_val) list \<Rightarrow> string \<Rightarrow> php_val \<Rightarrow> (string \<times> php_val) list" where
  "array_set [] k v = [(k, v)]"
| "array_set ((k', v') # a) k v = (if k' = k then (k, v) # a else (k', v') # array_set a k v)"

text \<open>
  \<open>json_encode\<close> returns \<open>false\<close> for a value that holds an infinite or undefined
  float, or arrays nested deeper than 512; \<open>echo\<close> then prints nothing. The strings that
  reach it here are ASCII (target, extracted addresses, clock, messages) or come out of
  \<open>json_decode\<close>, which yields well-formed UTF-8 only. \<open>Some v\<close> stands for the JSON
  text of \<open>v\<close>, \<open>None\<close> for the empty body.
\<close>

fun json_finite :: "php_val \<Rightarrow> bool" where
  "json_finite (PFloat f) = (case f of Finite r \<Rightarrow> True | _ \<Rightarrow> False)"
| "json_finite (PList xs) = list_all json_finite xs"
| "json_finite (PMap m) = list_all (\<lambda>kv. json_finite (snd kv)) m"
| "json_finite v = True"

fun json_depth :: "php_val \<Rightarrow> nat" where
  "json_depth (PList xs) = Suc (fold max (map json_depth xs) 0)"
| "json_depth (PMap m) = Suc (fold max (map (\<lambda>kv. json_depth (snd kv)) m) 0)"
| "json_depth v = 0"

definition json_encode :: "php_val \<Rightarrow> php_val option" where
  "json_encode v = (if json_finite v \<and> json_depth v \<le> 512 then Some v else None)"

section \<open>Running the traceroute\<close>

record trace_result =
  output_lines :: "string list"
  returnCode :: int
  isWindows :: bool

definition executeTraceroute :: "env \<Rightarrow> string \<Rightarrow> trace_result \<times> event list" where
  "executeTraceroute e target =
     (let isWin = (strtoupper (take 3 (PHP_OS e)) = ''WIN'');
          command = (if isWin then ''tracert -4 -h 15 -w 1000 '' @ escapeshellarg e target
                     else ''traceroute -m 15 -w 1 '' @ escapeshellarg e target);
          (out, rc) = exec e command
      in (\<lparr>output_lines = out, returnCode = rc, isWindows = isWin\<rparr>, [Exec command]))"

section \<open>Geolocation lookup\<close>

definition geo_url :: "string \<Rightarrow> string" where
  "geo_url ip = ''http://ip-api.com/json/'' @ ip @
     ''?fields=status,message,country,countryCode,region,regionName,city,lat,lon,isp,org,as,query''"

definition getGeolocation :: "env \<Rightarrow> string \<Rightarrow> throwable + (string \<times> php_val) list" where
  "getGeolocation e ip =
     (let minimal = [(''ip'', PStr ip), (''country'', PNull), (''city'', PNull),
                     (''lat'', PNull), (''lon'', PNull), (''isp'', PNull)]
      in case fetch e (geo_url ip) of
           NoResponse \<Rightarrow> Inr minimal
         | Body data \<Rightarrow>
             (if php_truthy data
              then (case read_offset e data ''status'' of
                      Inl err \<Rightarrow> Inl err
                    | Inr status \<Rightarrow>
                        (if status = PStr ''success''
                         then (case read_offset e data ''query'' of
                                 Inl err \<Rightarrow> Inl err
                               | Inr query \<Rightarrow>
                                   Inr [(''ip'', query),
                                        (''country'', coalesce_offset data ''country''),
                                        (''countryCode'', coalesce_offset data ''countryCode''),
                                        (''region'', coalesce_offset data ''regionName''),
                                        (''city'', coalesce_offset data ''city''),
                                        (''lat'', coalesce_offset data ''lat''),
                                        (''lon'', coalesce_offset data ''lon''),
                                        (''isp'', coalesce_offset data ''isp''),
                                        (''org'', coalesce_offset data ''org''),
                                        (''as'', coalesce_offset data ''as'')])
                         else Inr minimal))
              else Inr minimal))"

text \<open>The \<open>foreach ($ips as $index => $ip)\<close> of \<open>getGeolocations\<close>: \<open>n\<close> is
  \<open>count($ips)\<close>, \<open>i\<close> the index of the head of the remaining addresses, \<open>hops\<close>
  the array built so far and \<open>evs\<close> the calls made so far. A lookup that throws ends the
  loop at once.\<close>

fun geo_loop :: "env \<Rightarrow> nat \<Rightarrow> nat \<Rightarrow> string list \<Rightarrow> php_val list \<Rightarrow> event list
    \<Rightarrow> (throwable + php_val list) \<times> event list" where
  "geo_loop e n i [] hops evs = (Inr hops, evs)"
| "geo_loop e n i (ip # rest) hops evs =
     (let evs' = evs @ [Fetch (geo_url ip)]
      in case getGeolocation e ip of
           Inl err \<Rightarrow> (Inl err, evs')
         | Inr geo \<Rightarrow>
             (let geoData = array_set geo ''hop'' (PInt (int i + 1))
              in geo_loop e n (Suc i) rest (hops @ [PMap geoData])
                   (if int i < int n - 1 then evs' @ [Usleep 700000] else evs')))"

definition getGeolocations :: "env \<Rightarrow> string list \<Rightarrow> (throwable + php_val list) \<times> event list" where
  "getGeolocations e ips = geo_loop e (length ips) 0 ips [] []"

section \<open>The endpoint\<close>

text \<open>One request: the \<open>target\<close> query parameter if it is set, and the world. The result
  is the value given to \<open>json_encode\<close> and the external calls made. The two exceptions
  the script raises itself are caught by \<open>catch (Exception $e)\<close>, a \<open>TypeError\<close> by
  \<open>catch (Throwable $e)\<close>.\<close>

definition trace_php :: "env \<Rightarrow> string option \<Rightarrow> php_val \<times> event list" where
  "trace_php e get_target =
     (let target = (case get_target of Some t \<Rightarrow> php_trim t | None \<Rightarrow> [])
      in if php_empty target
         then (PMap [(''error'', PStr ''Target parameter is required''),
                     (''usage'', PStr ''api/trace.php?target=google.com'')], [])
         else if rmatch target_re target = None
         then (PMap [(''error'', PStr
                 ''Invalid target format. Only domain names and IP addresses are allowed.'')], [])
         else
           (let (traceResult, evs1) = executeTraceroute e target
            in if output_lines traceResult = []
               then (PMap [(''error'', PStr ''Traceroute command failed or returned no output''),
                           (''target'', PStr target)], evs1)
               else
                 (let ips = parseTraceroute (output_lines traceResult) (isWindows traceResult)
                  in if ips = []
                     then (PMap [(''error'', PStr
                             ''No valid IP addresses found in traceroute output''),
                                 (''target'', PStr target)], evs1)
                     else
                       (case getGeolocations e ips of
                          (Inr hops, evs2) \<Rightarrow>
                            (PMap [(''success'', PBool True),
                                   (''target'', PStr target),
                                   (''timestamp'', PStr (date e)),
                                   (''hopCount'', PInt (int (length hops))),
                                   (''hops'', PList hops)], evs1 @ evs2)
                        | (Inl (TypeError msg), evs2) \<Rightarrow>
                            (PMap [(''error'', PStr (''An unexpected error occurred: '' @ msg)),
                                   (''target'', PStr target)], evs1 @ evs2)))))"

text \<open>What the endpoint prints: \<open>echo json_encode(...)\<close> of that value.\<close>

definition response_body :: "env \<Rightarrow> string option \<Rightarrow> php_val option" where
  "response_body e get_target = json_encode (fst (trace_php e get_target))"

section \<open>Notions used to state the properties\<close>

text \<open>A target that passes both checks of the input validation.\<close>

definition passes_validation :: "string \<Rightarrow> bool" where
  "passes_validation target = (\<not> php_empty target \<and> rmatch target_re target \<noteq> None)"

text \<open>The addresses the parser extracts for a validated target: what the endpoint hands
  to \<open>getGeolocations\<close>.\<close>

definition hop_addresses :: "env \<Rightarrow> string \<Rightarrow> string list" where
  "hop_addresses e target =
     parseTraceroute (output_lines (fst (executeTraceroute e target)))
       (isWindows (fst (executeTraceroute e target)))"

text \<open>The addresses read off the lines of the raw output, line by line, repeats
  included, and the position at which a value first appears in a list.\<close>

definition line_addresses :: "string list \<Rightarrow> string list" where
  "line_addresses ls = List.map_filter (\<lambda>l. if skipped l then None else line_ip l) ls"

definition first_index :: "'a list \<Rightarrow> 'a \<Rightarrow> nat" where
  "first_index xs a = length (takeWhile (\<lambda>y. y \<noteq> a) xs)"

text \<open>One step of the deduplicating append of \<open>parseTraceroute\<close>.\<close>

definition add_new :: "string \<Rightarrow> string list \<Rightarrow> string list" where
  "add_new ip ips = (if ip \<in> set ips then ips else ips @ [ip])"

text \<open>A list with a separator between each two neighbours and none at either end.\<close>

fun between :: "'a \<Rightarrow> 'a list \<Rightarrow> 'a list" where
  "between d [] = []"
| "between d [x] = [x]"
| "between d (x # y # zs) = x # d # between d (y # zs)"

text \<open>
  The three outcomes of a lookup, read off its reply. It succeeds on a non-empty array
  whose \<open>status\<close> is \<open>success\<close>. It raises on a string other than \<open>""\<close> and
  \<open>"0"\<close>. Every lookup that does not succeed has failed, in the sense of the
  specification; of those, the ones that do not raise are answered with the minimal
  record.
\<close>

fun succeeded :: "geo_reply \<Rightarrow> bool" where
  "succeeded (Body (PMap m)) = (m \<noteq> [] \<and> array_get m ''status'' = PStr ''success'')"
| "succeeded r = False"

fun raises :: "geo_reply \<Rightarrow> bool" where
  "raises (Body (PStr s)) = (\<not> php_empty s)"
| "raises r = False"

definition lookup_failed :: "geo_reply \<Rightarrow> bool" where
  "lookup_failed r = (\<not> succeeded r)"

text \<open>A value \<open>json_encode\<close> accepts when arrays may still nest \<open>d\<close> deep: no
  infinite or undefined float, and nesting of at most \<open>d\<close>.\<close>

definition fits :: "nat \<Rightarrow> php_val \<Rightarrow> bool" where
  "fits d v = (json_finite v \<and> json_depth v \<le> d)"

text \<open>A reply whose members \<open>json_encode\<close> accepts three levels down, where the
  response holds them. Only the members of a lookup that succeeded reach the response.\<close>

fun encodable_reply :: "geo_reply \<Rightarrow> bool" where
  "encodable_reply (Body (PMap m)) =
     (\<not> succeeded (Body (PMap m)) \<or> list_all (\<lambda>kv. fits 509 (snd kv)) m)"
| "encodable_reply r = True"

text \<open>The record a lookup returns, when it returns.\<close>

definition record_of :: "env \<Rightarrow> string \<Rightarrow> (string \<times> php_val) list" where
  "record_of e ip = (case getGeolocation e ip of Inr geo \<Rightarrow> geo | Inl err \<Rightarrow> [])"

text \<open>
  What a match is, apart from the order in which the matcher finds it: one piece of
  text per item, each piece made of characters of the item's class and of a length the
  quantifier allows.
\<close>

fun at_most :: "nat option \<Rightarrow> nat \<Rightarrow> bool" where
  "at_most None n = True"
| "at_most (Some h) n = (n \<le> h)"

fun dmatch :: "item list \<Rightarrow> string list \<Rightarrow> bool" where
  "dmatch [] ms = (ms = [])"
| "dmatch (it # its) [] = False"
| "dmatch (Eos # its) (m # ms) = (m = [] \<and> dmatch its ms)"
| "dmatch (Rep c lo hi # its) (m # ms) =
     (lo \<le> length m \<and> at_most hi (length m) \<and> list_all (cls_mem c) m \<and> dmatch its ms)"

fun no_eos :: "item list \<Rightarrow> bool" where
  "no_eos [] = True"
| "no_eos (Eos # its) = False"
| "no_eos (Rep c lo hi # its) = no_eos its"

subsection \<open>Sample worlds\<close>

definition unix_quote :: "string \<Rightarrow> string" where
  "unix_quote s = [CHR 0x27] @ s @ [CHR 0x27]"


text \<open>A Unix host whose traceroute prints nothing.\<close>

definition env_no_output :: env where
  "env_no_output = \<lparr>PHP_OS = ''Linux'', escapeshellarg = unix_quote,
     exec = (\<lambda>c. ([], 0)),
     fetch = (\<lambda>u. NoResponse), date = ''2024-01-01 00:00:00'',
     offset_error = ''Cannot access offset of type string on string''\<rparr>"

text \<open>A Unix host with two answering hops, one unanswered hop between them, and a
  geolocation service that cannot be reached.\<close>

definition env_lookup_down :: env where
  "env_lookup_down = \<lparr>PHP_OS = ''Linux'', escapeshellarg = unix_quote,
     exec = (\<lambda>c. ([''1  192.0.2.1  1.0 ms'', ''2  * * *'', ''3  192.0.2.9  9.0 ms''], 0)),
     fetch = (\<lambda>u. NoResponse), date = ''2024-01-01 00:00:00'',
     offset_error = ''Cannot access offset of type string on string''\<rparr>"

text \<open>The same host with a service that answers with an explicit failure for the first
  address and with a document for the second.\<close>

definition env_lookup_mixed :: env where
  "env_lookup_mixed = \<lparr>PHP_OS = ''Linux'', escapeshellarg = unix_quote,
     exec = (\<lambda>c. ([''1  192.0.2.1  1.0 ms'', ''2  * * *'', ''3  192.0.2.9  9.0 ms''], 0)),
     fetch = (\<lambda>u. if u = geo_url ''192.0.2.1''
                    then Body (PMap [(''status'', PStr ''fail''),
                                     (''message'', PStr ''reserved range''),
                                     (''query'', PStr ''192.0.2.1'')])
                    else Body (PMap [(''status'', PStr ''success''),
                                     (''country'', PStr ''Utopia''),
                                     (''query'', PStr ''192.0.2.9'')])),
     date = ''2024-01-01 00:00:00'',
     offset_error = ''Cannot access offset of type string on string''\<rparr>"

text \<open>A Unix host with three answering hops and a service whose body for the first
  address is the JSON string \<open>"Too many requests"\<close>; it cannot be reached for the
  others.\<close>

definition env_string_body :: env where
  "env_string_body = \<lparr>PHP_OS = ''Linux'', escapeshellarg = unix_quote,
     exec = (\<lambda>c. ([''1  192.0.2.1  1.0 ms'', ''2  192.0.2.5  5.0 ms'',
                     ''3  192.0.2.9  9.0 ms''], 0)),
     fetch = (\<lambda>u. if u = geo_url ''192.0.2.1'' then Body (PStr ''Too many requests'')
                    else NoResponse),
     date = ''2024-01-01 00:00:00'',
     offset_error = ''Cannot access offset of type string on string''\<rparr>"

text \<open>The host with two answering hops and a service whose body for the first address
  is not JSON and whose document for the second holds the latitude \<open>1e999\<close>.\<close>

definition env_infinite :: env where
  "env_infinite = \<lparr>PHP_OS = ''Linux'', escapeshellarg = unix_quote,
     exec = (\<lambda>c. ([''1  192.0.2.1  1.0 ms'', ''2  * * *'', ''3  192.0.2.9  9.0 ms''], 0)),
     fetch = (\<lambda>u. if u = geo_url ''192.0.2.1'' then Body PNull
                    else Body (PMap [(''status'', PStr ''success''),
                                     (''lat'', PFloat PosInf),
                                     (''query'', PStr ''192.0.2.9'')])),
     date = ''2024-01-01 00:00:00'',
     offset_error = ''Cannot access offset of type string on string''\<rparr>"

section \<open>Properties of the building blocks\<close>

declare retry.simps [simp del]

lemma trace_php_valid:
  "passes_validation (php_trim t) \<Longrightarrow> trace_php e (Some t) =
     (let target = php_trim t;
          evs1 = snd (executeTraceroute e target);
          ips = hop_addresses e target
      in if output_lines (fst (executeTraceroute e target)) = []
         then (PMap [(''error'', PStr ''Traceroute command failed or returned no output''),
                     (''target'', PStr target)], evs1)
         else if ips = []
         then (PMap [(''error'', PStr ''No valid IP addresses found in traceroute output''),
                     (''target'', PStr target)], evs1)
         else (case fst (getGeolocations e ips) of
                 Inr hops \<Rightarrow>
                   (PMap [(''success'', PBool True),
                          (''target'', PStr target),
                          (''timestamp'', PStr (date e)),
                          (''hopCount'', PInt (int (length hops))),
                          (''hops'', PList hops)],
                    evs1 @ snd (getGeolocations e ips))
               | Inl (TypeError msg) \<Rightarrow>
                   (PMap [(''error'', PStr (''An unexpected error occurred: '' @ msg)),
                          (''target'', PStr target)],
                    evs1 @ snd (getGeolocations e ips))))"
  by (auto simp: trace_php_def passes_validation_def hop_addresses_def Let_def case_prod_beta
      split: sum.splits throwable.splits prod.splits)

lemma trace_php_invalid:
  "\<not> passes_validation (php_trim t) \<Longrightarrow> snd (trace_php e (Some t)) = [] \<and>
     (fst (trace_php e (Some t)) =
        PMap [(''error'', PStr ''Target parameter is required''),
              (''usage'', PStr ''api/trace.php?target=google.com'')] \<or>
      fst (trace_php e (Some t)) =
        PMap [(''error'', PStr
          ''Invalid target format. Only domain names and IP addresses are allowed.'')])"
  by (auto simp: trace_php_def passes_validation_def Let_def)

lemma getGeolocation_cases:
  "getGeolocation e ip =
     (if raises (fetch e (geo_url ip)) then Inl (TypeError (offset_error e))
      else Inr (record_of e ip))"
proof (cases "fetch e (geo_url ip)")
  case NoResponse
  then show ?thesis by (simp add: getGeolocation_def record_of_def)
next
  case (Body data)
  then show ?thesis
    by (cases data) (simp_all add: getGeolocation_def record_of_def Let_def)
qed

lemma getGeolocation_failed:
  assumes "lookup_failed (fetch e (geo_url ip))" and "\<not> raises (fetch e (geo_url ip))"
  shows "getGeolocation e ip = Inr [(''ip'', PStr ip), (''country'', PNull), (''city'', PNull),
                          (''lat'', PNull), (''lon'', PNull), (''isp'', PNull)]"
proof (cases "fetch e (geo_url ip)")
  case NoResponse
  then show ?thesis by (simp add: getGeolocation_def)
next
  case (Body data)
  then show ?thesis using assms
    by (cases data) (auto simp: getGeolocation_def lookup_failed_def Let_def)
qed

lemma record_of_failed:
  "lookup_failed (fetch e (geo_url ip)) \<Longrightarrow> \<not> raises (fetch e (geo_url ip)) \<Longrightarrow>
   record_of e ip = [(''ip'', PStr ip), (''country'', PNull), (''city'', PNull),
                     (''lat'', PNull), (''lon'', PNull), (''isp'', PNull)]"
  by (simp add: record_of_def getGeolocation_failed)

lemma between_Cons:
  "between d (x # xs) = x # (if xs = [] then [] else d # between d xs)"
  by (cases xs) simp_all

lemma geo_loop_returns:
  "\<forall>ip\<in>set rest. \<not> raises (fetch e (geo_url ip)) \<Longrightarrow>
   fst (geo_loop e n i rest hops evs) =
     Inr (hops @ map (\<lambda>(k, ip). PMap (array_set (record_of e ip) ''hop'' (PInt (int k + 1))))
                  (enumerate i rest))"
  by (induction rest arbitrary: i hops evs) (simp_all add: Let_def getGeolocation_cases)

lemma geo_loop_events:
  "\<forall>ip\<in>set rest. \<not> raises (fetch e (geo_url ip)) \<Longrightarrow> n = i + length rest \<Longrightarrow>
   snd (geo_loop e n i rest hops evs) =
     evs @ between (Usleep 700000) (map (\<lambda>ip. Fetch (geo_url ip)) rest)"
proof (induction rest arbitrary: i hops evs)
  case Nil
  then show ?case by simp
next
  case (Cons ip rest)
  have n: "n = Suc i + length rest" using Cons.prems by simp
  have r: "\<forall>ip\<in>set rest. \<not> raises (fetch e (geo_url ip))" using Cons.prems by simp
  have g: "getGeolocation e ip = Inr (record_of e ip)"
    using Cons.prems by (simp add: getGeolocation_cases)
  have lt: "(int i < int n - 1) = (rest \<noteq> [])" using n by auto
  show ?case
    unfolding geo_loop.simps Let_def g sum.case lt Cons.IH [OF r n] list.map between_Cons
    by simp
qed

lemma geo_loop_throws:
  "raises (fetch e (geo_url ip)) \<Longrightarrow>
   geo_loop e n i (ip # rest) hops evs =
     (Inl (TypeError (offset_error e)), evs @ [Fetch (geo_url ip)])"
  by (simp add: getGeolocation_cases)

lemma geo_loop_InrD:
  "fst (geo_loop e n i rest hops evs) = Inr hs \<Longrightarrow>
   \<forall>ip\<in>set rest. \<not> raises (fetch e (geo_url ip))"
proof (induction rest arbitrary: i hops evs)
  case Nil
  then show ?case by simp
next
  case (Cons ip rest)
  show ?case
  proof (cases "raises (fetch e (geo_url ip))")
    case True
    then show ?thesis using Cons.prems by (simp add: getGeolocation_cases)
  next
    case False
    then have "fst (geo_loop e n (Suc i) rest
        (hops @ [PMap (array_set (record_of e ip) ''hop'' (PInt (int i + 1)))])
        (if int i < int n - 1 then (evs @ [Fetch (geo_url ip)]) @ [Usleep 700000]
         else evs @ [Fetch (geo_url ip)])) = Inr hs"
      using Cons.prems by (simp add: getGeolocation_cases Let_def)
    from Cons.IH [OF this] False show ?thesis by simp
  qed
qed

lemma count_between:
  "length (filter (\<lambda>ev. ev = Usleep 700000)
     (between (Usleep 700000) (map (\<lambda>ip. Fetch (geo_url ip)) ips))) = length ips - 1"
  by (induction ips rule: induct_list012) auto

lemma array_get_set: "array_get (array_set a k v) k = v"
  by (induction a) (auto simp: array_get_def)

lemma getGeolocations_hops:
  assumes "\<forall>ip\<in>set ips. \<not> raises (fetch e (geo_url ip))"
  shows "\<exists>hops. fst (getGeolocations e ips) = Inr hops \<and> length hops = length ips \<and>
     (\<forall>i<length ips. hops ! i =
        PMap (array_set (record_of e (ips ! i)) ''hop'' (PInt (int i + 1))))"
  using geo_loop_returns [OF assms, of "length ips" 0 "[]" "[]"]
  by (simp add: getGeolocations_def nth_enumerate_eq)

text \<open>When no lookup raises, the enricher makes the lookups in order with one delay of
  700000 microseconds between each two consecutive lookups and none after the last.\<close>

lemma delays_when_lookups_return:
  assumes "\<forall>ip\<in>set ips. \<not> raises (fetch e (geo_url ip))"
  shows "snd (getGeolocations e ips) =
     between (Usleep 700000) (map (\<lambda>ip. Fetch (geo_url ip)) ips) \<and>
   length (filter (\<lambda>ev. ev = Usleep 700000) (snd (getGeolocations e ips))) = length ips - 1"
  unfolding getGeolocations_def
  using geo_loop_events [OF assms, of "length ips" 0 "[]" "[]"] count_between by simp

lemma read_offset_exec: "read_offset (e\<lparr>exec := f\<rparr>) v k = read_offset e v k"
  by (cases v) simp_all

lemma getGeolocation_exec: "getGeolocation (e\<lparr>exec := f\<rparr>) ip = getGeolocation e ip"
  unfolding getGeolocation_def read_offset_exec by simp

lemma geo_loop_exec:
  "geo_loop (e\<lparr>exec := f\<rparr>) n i rest hops evs = geo_loop e n i rest hops evs"
  by (induction rest arbitrary: i hops evs)
     (simp_all add: getGeolocation_exec Let_def split: sum.splits)

lemma executeTraceroute_exec:
  "executeTraceroute (e\<lparr>exec := \<lambda>c. (fst (exec e c), rc c)\<rparr>) target =
     (fst (executeTraceroute e target)\<lparr>returnCode := rc (case snd (executeTraceroute e target) of [Exec c] \<Rightarrow> c)\<rparr>,
      snd (executeTraceroute e target))"
  by (simp add: executeTraceroute_def Let_def case_prod_beta)

lemma trace_php_exit_status:
  "trace_php (e\<lparr>exec := \<lambda>c. (fst (exec e c), rc c)\<rparr>) g = trace_php e g"
  unfolding trace_php_def executeTraceroute_exec getGeolocations_def geo_loop_exec
  by (simp add: Let_def case_prod_beta split: sum.splits throwable.splits)

lemma parse_lines_fold: "parse_lines ls ips = fold add_new (line_addresses ls) ips"
  by (induction ls arbitrary: ips)
     (auto simp: line_addresses_def map_filter_simps add_new_def split: option.splits)

lemma first_index_mem:
  "a \<in> set xs \<Longrightarrow> first_index (xs @ ys) a = first_index xs a \<and> first_index xs a < length xs"
  unfolding first_index_def by (induction xs) auto

lemma first_index_new: "a \<notin> set xs \<Longrightarrow> first_index (xs @ [a]) a = length xs"
  unfolding first_index_def by (induction xs) auto

lemma fold_add_new_props:
  "distinct (fold add_new xs []) \<and> set (fold add_new xs []) = set xs \<and>
   (\<forall>i j. i < j \<and> j < length (fold add_new xs []) \<longrightarrow>
      first_index xs (fold add_new xs [] ! i) < first_index xs (fold add_new xs [] ! j))"
proof (induction xs rule: rev_induct)
  case Nil
  then show ?case by simp
next
  case (snoc x xs)
  let ?r = "fold add_new xs []"
  have d: "distinct ?r" and s: "set ?r = set xs"
    and o: "\<And>i j. i < j \<Longrightarrow> j < length ?r \<Longrightarrow>
              first_index xs (?r ! i) < first_index xs (?r ! j)"
    using snoc.IH by auto
  show ?case
  proof (cases "x \<in> set ?r")
    case True
    then have eq: "fold add_new (xs @ [x]) [] = ?r" by (simp add: add_new_def)
    have "first_index (xs @ [x]) (?r ! i) < first_index (xs @ [x]) (?r ! j)"
      if "i < j" "j < length ?r" for i j
    proof -
      have "?r ! i \<in> set xs" "?r ! j \<in> set xs"
        using that s nth_mem [of i ?r] nth_mem [of j ?r] by auto
      then show ?thesis using o [OF that] first_index_mem by metis
    qed
    then show ?thesis using d s True eq by auto
  next
    case False
    then have eq: "fold add_new (xs @ [x]) [] = ?r @ [x]" by (simp add: add_new_def)
    have "first_index (xs @ [x]) ((?r @ [x]) ! i) < first_index (xs @ [x]) ((?r @ [x]) ! j)"
      if "i < j" "j < length (?r @ [x])" for i j
    proof (cases "j < length ?r")
      case True
      then have "?r ! i \<in> set xs" "?r ! j \<in> set xs"
        using that s nth_mem [of i ?r] nth_mem [of j ?r] by auto
      then have "first_index (xs @ [x]) (?r ! i) < first_index (xs @ [x]) (?r ! j)"
        using o [OF that(1) True] first_index_mem by metis
      then show ?thesis using True that by (simp add: nth_append)
    next
      case False
      then have j: "j = length ?r" using that by simp
      then have i: "i < length ?r" using that by simp
      then have "?r ! i \<in> set xs" using s nth_mem [of i ?r] by auto
      then have "first_index (xs @ [x]) (?r ! i) < length xs" using first_index_mem by metis
      moreover have "first_index (xs @ [x]) x = length xs"
        using \<open>x \<notin> set ?r\<close> s first_index_new by metis
      ultimately show ?thesis using i j by (simp add: nth_append)
    qed
    then show ?thesis using d s False eq by auto
  qed
qed

subsection \<open>What \<open>json_encode\<close> accepts\<close>

lemma fold_max_le: "(fold max ys (a::nat) \<le> b) = (a \<le> b \<and> (\<forall>y\<in>set ys. y \<le> b))"
  by (induction ys arbitrary: a) auto

lemma fits_scalar [simp]:
  "fits d PNull" "fits d (PStr s)" "fits d (PInt i)" "fits d (PBool b)"
  by (simp_all add: fits_def)

lemma fits_PMap:
  "list_all (\<lambda>kv. fits d (snd kv)) m \<Longrightarrow> fits (Suc d) (PMap m)"
  by (auto simp: fits_def list_all_iff fold_max_le)

lemma fits_PList:
  "list_all (fits d) xs \<Longrightarrow> fits (Suc d) (PList xs)"
  by (auto simp: fits_def list_all_iff fold_max_le)

lemma fits_array_get:
  "list_all (\<lambda>kv. fits d (snd kv)) m \<Longrightarrow> fits d (array_get m k)"
  by (auto simp: array_get_def list_all_iff split: option.splits dest!: map_of_SomeD)

lemma fits_array_set:
  "list_all (\<lambda>kv. fits d (snd kv)) a \<Longrightarrow> fits d v \<Longrightarrow>
   list_all (\<lambda>kv. fits d (snd kv)) (array_set a k v)"
  by (induction a) auto

lemma record_of_fits:
  assumes "\<not> raises (fetch e (geo_url ip))" and "encodable_reply (fetch e (geo_url ip))"
  shows "list_all (\<lambda>kv. fits 509 (snd kv)) (record_of e ip)"
proof (cases "succeeded (fetch e (geo_url ip))")
  case False
  then show ?thesis using assms(1) record_of_failed [of e ip]
    by (simp add: lookup_failed_def)
next
  case True
  then obtain m where m: "fetch e (geo_url ip) = Body (PMap m)" and ne: "m \<noteq> []"
    and st: "array_get m ''status'' = PStr ''success''"
    by (cases "fetch e (geo_url ip)" rule: succeeded.cases) auto
  have "list_all (\<lambda>kv. fits 509 (snd kv)) m"
    using assms(2) True m by simp
  then have "fits 509 (array_get m k)" for k by (rule fits_array_get)
  then show ?thesis using m ne st
    by (simp add: record_of_def getGeolocation_def)
qed

lemma json_encode_fits: "fits 512 v \<Longrightarrow> json_encode v = Some v"
  by (simp add: json_encode_def fits_def)

subsection \<open>The sample worlds, run\<close>

lemma executeTraceroute_unix:
  "strtoupper (take 3 (PHP_OS e)) \<noteq> ''WIN'' \<Longrightarrow>
   executeTraceroute e target =
     (\<lparr>output_lines = fst (exec e (''traceroute -m 15 -w 1 '' @ escapeshellarg e target)),
       returnCode = snd (exec e (''traceroute -m 15 -w 1 '' @ escapeshellarg e target)),
       isWindows = False\<rparr>,
      [Exec (''traceroute -m 15 -w 1 '' @ escapeshellarg e target)])"
  by (simp add: executeTraceroute_def Let_def case_prod_beta)

lemma linux_not_windows: "strtoupper (take 3 ''Linux'') \<noteq> ''WIN''"
  by (simp add: strtoupper_def upper_char_def in_range_def byte_def)

lemma env_no_output_run:
  "executeTraceroute env_no_output target =
     (\<lparr>output_lines = [], returnCode = 0, isWindows = False\<rparr>,
      [Exec (''traceroute -m 15 -w 1 '' @ unix_quote target)])"
  using executeTraceroute_unix [of env_no_output target] linux_not_windows
  by (simp add: env_no_output_def)

lemma env_lookup_down_run:
  "executeTraceroute env_lookup_down target =
     (\<lparr>output_lines = [''1  192.0.2.1  1.0 ms'', ''2  * * *'', ''3  192.0.2.9  9.0 ms''],
       returnCode = 0, isWindows = False\<rparr>,
      [Exec (''traceroute -m 15 -w 1 '' @ unix_quote target)])"
  using executeTraceroute_unix [of env_lookup_down target] linux_not_windows
  by (simp add: env_lookup_down_def)

lemma env_lookup_mixed_run:
  "executeTraceroute env_lookup_mixed target =
     (\<lparr>output_lines = [''1  192.0.2.1  1.0 ms'', ''2  * * *'', ''3  192.0.2.9  9.0 ms''],
       returnCode = 0, isWindows = False\<rparr>,
      [Exec (''traceroute -m 15 -w 1 '' @ unix_quote target)])"
  using executeTraceroute_unix [of env_lookup_mixed target] linux_not_windows
  by (simp add: env_lookup_mixed_def)

lemma env_infinite_run:
  "executeTraceroute env_infinite target =
     (\<lparr>output_lines = [''1  192.0.2.1  1.0 ms'', ''2  * * *'', ''3  192.0.2.9  9.0 ms''],
       returnCode = 0, isWindows = False\<rparr>,
      [Exec (''traceroute -m 15 -w 1 '' @ unix_quote target)])"
  using executeTraceroute_unix [of env_infinite target] linux_not_windows
  by (simp add: env_infinite_def)

lemma env_string_body_run:
  "executeTraceroute env_string_body target =
     (\<lparr>output_lines = [''1  192.0.2.1  1.0 ms'', ''2  192.0.2.5  5.0 ms'',
                       ''3  192.0.2.9  9.0 ms''],
       returnCode = 0, isWindows = False\<rparr>,
      [Exec (''traceroute -m 15 -w 1 '' @ unix_quote target)])"
  using executeTraceroute_unix [of env_string_body target] linux_not_windows
  by (simp add: env_string_body_def)

lemma sample_lines_parse:
  "parseTraceroute [''1  192.0.2.1  1.0 ms'', ''2  * * *'', ''3  192.0.2.9  9.0 ms''] w =
     [''192.0.2.1'', ''192.0.2.9'']"
  unfolding parseTraceroute_def by code_simp

lemma three_lines_parse:
  "parseTraceroute [''1  192.0.2.1  1.0 ms'', ''2  192.0.2.5  5.0 ms'',
                    ''3  192.0.2.9  9.0 ms''] w =
     [''192.0.2.1'', ''192.0.2.5'', ''192.0.2.9'']"
  unfolding parseTraceroute_def by code_simp

lemma example_com_valid:
  "php_trim ''example.com'' = ''example.com'' \<and> passes_validation ''example.com''"
  unfolding passes_validation_def by code_simp

lemma geo_url_inject: "(geo_url a = geo_url b) = (a = b)"
  by (simp add: geo_url_def)

lemma env_lookup_down_response:
  "trace_php env_lookup_down (Some ''example.com'') =
     (PMap [(''success'', PBool True), (''target'', PStr ''example.com''),
            (''timestamp'', PStr ''2024-01-01 00:00:00''), (''hopCount'', PInt 2),
            (''hops'', PList
               [PMap [(''ip'', PStr ''192.0.2.1''), (''country'', PNull), (''city'', PNull),
                      (''lat'', PNull), (''lon'', PNull), (''isp'', PNull), (''hop'', PInt 1)],
                PMap [(''ip'', PStr ''192.0.2.9''), (''country'', PNull), (''city'', PNull),
                      (''lat'', PNull), (''lon'', PNull), (''isp'', PNull), (''hop'', PInt 2)]])],
      [Exec (''traceroute -m 15 -w 1 '' @ unix_quote ''example.com''),
       Fetch (geo_url ''192.0.2.1''), Usleep 700000, Fetch (geo_url ''192.0.2.9'')])"
proof -
  have g: "getGeolocation env_lookup_down ip = Inr [(''ip'', PStr ip), (''country'', PNull),
      (''city'', PNull), (''lat'', PNull), (''lon'', PNull), (''isp'', PNull)]" for ip
    by (simp add: getGeolocation_def env_lookup_down_def)
  have h: "hop_addresses env_lookup_down ''example.com'' = [''192.0.2.1'', ''192.0.2.9'']"
    by (simp add: hop_addresses_def env_lookup_down_run sample_lines_parse)
  have d: "date env_lookup_down = ''2024-01-01 00:00:00''" by (simp add: env_lookup_down_def)
  show ?thesis
    using example_com_valid
    by (simp add: trace_php_valid h env_lookup_down_run getGeolocations_def g d Let_def)
qed

lemma env_lookup_mixed_addresses:
  "hop_addresses env_lookup_mixed ''example.com'' = [''192.0.2.1'', ''192.0.2.9'']"
  by (simp add: hop_addresses_def env_lookup_mixed_run sample_lines_parse)

lemma env_lookup_mixed_response:
  "trace_php env_lookup_mixed (Some ''example.com'') =
     (PMap [(''success'', PBool True), (''target'', PStr ''example.com''),
            (''timestamp'', PStr ''2024-01-01 00:00:00''), (''hopCount'', PInt 2),
            (''hops'', PList
               [PMap [(''ip'', PStr ''192.0.2.1''), (''country'', PNull), (''city'', PNull),
                      (''lat'', PNull), (''lon'', PNull), (''isp'', PNull), (''hop'', PInt 1)],
                PMap [(''ip'', PStr ''192.0.2.9''), (''country'', PStr ''Utopia''),
                      (''countryCode'', PNull), (''region'', PNull), (''city'', PNull),
                      (''lat'', PNull), (''lon'', PNull), (''isp'', PNull), (''org'', PNull),
                      (''as'', PNull), (''hop'', PInt 2)]])],
      [Exec (''traceroute -m 15 -w 1 '' @ unix_quote ''example.com''),
       Fetch (geo_url ''192.0.2.1''), Usleep 700000, Fetch (geo_url ''192.0.2.9'')])"
proof -
  have g1: "getGeolocation env_lookup_mixed ''192.0.2.1'' =
      Inr [(''ip'', PStr ''192.0.2.1''), (''country'', PNull), (''city'', PNull),
       (''lat'', PNull), (''lon'', PNull), (''isp'', PNull)]"
    by (simp add: getGeolocation_def env_lookup_mixed_def array_get_def)
  have g2: "getGeolocation env_lookup_mixed ''192.0.2.9'' =
      Inr [(''ip'', PStr ''192.0.2.9''), (''country'', PStr ''Utopia''),
       (''countryCode'', PNull), (''region'', PNull), (''city'', PNull),
       (''lat'', PNull), (''lon'', PNull), (''isp'', PNull), (''org'', PNull), (''as'', PNull)]"
    by (simp add: getGeolocation_def env_lookup_mixed_def array_get_def geo_url_inject)
  have d: "date env_lookup_mixed = ''2024-01-01 00:00:00''" by (simp add: env_lookup_mixed_def)
  show ?thesis
    using example_com_valid
    by (simp add: trace_php_valid env_lookup_mixed_addresses env_lookup_mixed_run
        getGeolocations_def g1 g2 d Let_def)
qed

lemma env_string_body_lookups:
  "getGeolocations env_string_body [''192.0.2.1'', ''192.0.2.5'', ''192.0.2.9''] =
     (Inl (TypeError ''Cannot access offset of type string on string''),
      [Fetch (geo_url ''192.0.2.1'')])"
  by (simp add: getGeolocations_def getGeolocation_def env_string_body_def php_empty_def)

lemma env_string_body_response:
  "trace_php env_string_body (Some ''example.com'') =
     (PMap [(''error'', PStr (''An unexpected error occurred: '' @
               ''Cannot access offset of type string on string'')),
            (''target'', PStr ''example.com'')],
      [Exec (''traceroute -m 15 -w 1 '' @ unix_quote ''example.com''),
       Fetch (geo_url ''192.0.2.1'')])"
proof -
  have h: "hop_addresses env_string_body ''example.com'' =
      [''192.0.2.1'', ''192.0.2.5'', ''192.0.2.9'']"
    by (simp add: hop_addresses_def env_string_body_run three_lines_parse)
  show ?thesis
    using example_com_valid
    by (simp add: trace_php_valid h env_string_body_run env_string_body_lookups Let_def)
qed

lemma env_infinite_response:
  "trace_php env_infinite (Some ''example.com'') =
     (PMap [(''success'', PBool True), (''target'', PStr ''example.com''),
            (''timestamp'', PStr ''2024-01-01 00:00:00''), (''hopCount'', PInt 2),
            (''hops'', PList
               [PMap [(''ip'', PStr ''192.0.2.1''), (''country'', PNull), (''city'', PNull),
                      (''lat'', PNull), (''lon'', PNull), (''isp'', PNull), (''hop'', PInt 1)],
                PMap [(''ip'', PStr ''192.0.2.9''), (''country'', PNull),
                      (''countryCode'', PNull), (''region'', PNull), (''city'', PNull),
                      (''lat'', PFloat PosInf), (''lon'', PNull), (''isp'', PNull),
                      (''org'', PNull), (''as'', PNull), (''hop'', PInt 2)]])],
      [Exec (''traceroute -m 15 -w 1 '' @ unix_quote ''example.com''),
       Fetch (geo_url ''192.0.2.1''), Usleep 700000, Fetch (geo_url ''192.0.2.9'')])"
proof -
  have g1: "getGeolocation env_infinite ''192.0.2.1'' =
      Inr [(''ip'', PStr ''192.0.2.1''), (''country'', PNull), (''city'', PNull),
       (''lat'', PNull), (''lon'', PNull), (''isp'', PNull)]"
    by (simp add: getGeolocation_def env_infinite_def)
  have g2: "getGeolocation env_infinite ''192.0.2.9'' =
      Inr [(''ip'', PStr ''192.0.2.9''), (''country'', PNull),
       (''countryCode'', PNull), (''region'', PNull), (''city'', PNull),
       (''lat'', PFloat PosInf), (''lon'', PNull), (''isp'', PNull), (''org'', PNull),
       (''as'', PNull)]"
    by (simp add: getGeolocation_def env_infinite_def array_get_def geo_url_inject)
  have h: "hop_addresses env_infinite ''example.com'' = [''192.0.2.1'', ''192.0.2.9'']"
    by (simp add: hop_addresses_def env_infinite_run sample_lines_parse)
  have d: "date env_infinite = ''2024-01-01 00:00:00''" by (simp add: env_infinite_def)
  show ?thesis
    using example_com_valid
    by (simp add: trace_php_valid h env_infinite_run getGeolocations_def g1 g2 d Let_def)
qed

subsection \<open>The matcher\<close>

lemma retry_unfold:
  "retry its s lo k =
     (if k < lo then None
      else case rmatch its (drop k s) of
             Some r \<Rightarrow> Some (take k s # r)
           | None \<Rightarrow> (if k = 0 then None else retry its s lo (k - 1)))"
  by (rule retry.simps)

lemma retry_SomeD:
  "retry its s lo k = Some r \<Longrightarrow>
     \<exists>j r'. lo \<le> j \<and> j \<le> k \<and> rmatch its (drop j s) = Some r' \<and> r = take j s # r'"
proof (induction k)
  case 0
  then show ?case unfolding retry_unfold [of its s lo 0]
    by (cases "rmatch its (drop 0 s)") (auto split: if_splits)
next
  case (Suc k)
  show ?case
  proof (cases "rmatch its (drop (Suc k) s)")
    case None
    with Suc.prems have "retry its s lo k = Some r"
      unfolding retry_unfold [of its s lo "Suc k"] by (auto split: if_splits)
    from Suc.IH [OF this] obtain j r' where "lo \<le> j" "j \<le> k"
      "rmatch its (drop j s) = Some r'" "r = take j s # r'" by blast
    then have "lo \<le> j \<and> j \<le> Suc k \<and> rmatch its (drop j s) = Some r' \<and> r = take j s # r'"
      by simp
    then show ?thesis by blast
  next
    case (Some r')
    with Suc.prems have "lo \<le> Suc k \<and> r = take (Suc k) s # r'"
      unfolding retry_unfold [of its s lo "Suc k"] by (auto split: if_splits)
    then show ?thesis using Some by blast
  qed
qed

lemma retry_NoneD:
  "retry its s lo k = None \<Longrightarrow> lo \<le> j \<Longrightarrow> j \<le> k \<Longrightarrow> rmatch its (drop j s) = None"
proof (induction k)
  case 0
  then show ?case unfolding retry_unfold [of its s lo 0]
    by (cases "rmatch its (drop 0 s)") (auto split: if_splits)
next
  case (Suc k)
  from Suc.prems(1,2,3) have a: "rmatch its (drop (Suc k) s) = None"
    unfolding retry_unfold [of its s lo "Suc k"]
    by (cases "rmatch its (drop (Suc k) s)") (auto split: if_splits)
  show ?case
  proof (cases "j = Suc k")
    case True
    then show ?thesis using a by simp
  next
    case False
    then have jk: "j \<le> k" using Suc.prems by simp
    then have "\<not> Suc k < lo" using Suc.prems by simp
    with Suc.prems(1) a have "retry its s lo k = None"
      unfolding retry_unfold [of its s lo "Suc k"] by simp
    from Suc.IH [OF this Suc.prems(2) jk] show ?thesis .
  qed
qed

lemma greedy_take:
  "j \<le> greedy c hi s \<Longrightarrow> list_all (cls_mem c) (take j s) \<and> at_most hi j \<and> j \<le> length s"
proof (induction c hi s arbitrary: j rule: greedy.induct)
  case (1 c hi)
  then show ?case by (cases hi) auto
next
  case (2 c hi x xs)
  show ?case
  proof (cases j)
    case 0
    then show ?thesis by (cases hi) auto
  next
    case (Suc j')
    with "2.prems" have ok: "\<not> (hi = Some 0 \<or> \<not> cls_mem c x)" and le: "j' \<le> greedy c (map_option (\<lambda>h. h - 1) hi) xs"
      by (auto split: if_splits)
    from "2.IH" [OF ok le] show ?thesis using Suc ok by (cases hi) auto
  qed
qed

lemma greedy_ge:
  "list_all (cls_mem c) m \<Longrightarrow> at_most hi (length m) \<Longrightarrow> length m \<le> greedy c hi (m @ s)"
proof (induction m arbitrary: hi)
  case Nil
  then show ?case by simp
next
  case (Cons x m)
  have "at_most (map_option (\<lambda>h. h - 1) hi) (length m)" using Cons.prems by (cases hi) auto
  from Cons.IH [OF _ this] Cons.prems show ?case by (cases hi) auto
qed

lemma rmatch_sound:
  "rmatch its s = Some ms \<Longrightarrow> dmatch its ms \<and> (\<exists>t. s = concat ms @ t)"
proof (induction its arbitrary: s ms)
  case Nil
  then show ?case by simp
next
  case (Cons it its)
  show ?case
  proof (cases it)
    case Eos
    with Cons.prems obtain r where r: "rmatch its s = Some r" and ms: "ms = [] # r"
      by (auto split: if_splits option.splits)
    from Cons.IH [OF r] show ?thesis using Eos ms by simp
  next
    case (Rep c lo hi)
    with Cons.prems have "retry its s lo (greedy c hi s) = Some ms" by simp
    from retry_SomeD [OF this] obtain j r' where j: "lo \<le> j" "j \<le> greedy c hi s"
      and r: "rmatch its (drop j s) = Some r'" and ms: "ms = take j s # r'" by blast
    from Cons.IH [OF r] obtain t where d: "dmatch its r'" and p: "drop j s = concat r' @ t" by auto
    from greedy_take [OF j(2)] have g: "list_all (cls_mem c) (take j s)" "at_most hi j" "j \<le> length s"
      by auto
    have "s = take j s @ concat r' @ t" using p by (metis append_take_drop_id)
    then have "\<exists>t. s = concat ms @ t" using ms by auto
    then show ?thesis using Rep ms d g j by simp
  qed
qed

lemma rmatch_complete:
  "no_eos its \<Longrightarrow> dmatch its ms \<Longrightarrow> rmatch its (concat ms @ t) \<noteq> None"
proof (induction its arbitrary: ms)
  case Nil
  then show ?case by simp
next
  case (Cons it its)
  let ?s = "concat ms @ t"
  from Cons.prems obtain c lo hi where it: "it = Rep c lo hi" by (cases it) auto
  from Cons.prems it obtain m ms' where ms: "ms = m # ms'" by (cases ms) auto
  from Cons.prems it ms have m: "lo \<le> length m" "at_most hi (length m)" "list_all (cls_mem c) m"
    and d: "dmatch its ms'" and n: "no_eos its" by auto
  have s: "?s = m @ concat ms' @ t" using ms by simp
  have le: "length m \<le> greedy c hi ?s" using greedy_ge [OF m(3) m(2)] s by simp
  have "rmatch its (drop (length m) ?s) \<noteq> None" using Cons.IH [OF n d] s by simp
  then have "retry its ?s lo (greedy c hi ?s) \<noteq> None"
    using retry_NoneD [of its ?s lo "greedy c hi ?s" "length m"] m(1) le by fastforce
  then show ?case using it by simp
qed

lemma rmatch_Eos_only: "(rmatch [Eos] u \<noteq> None) = (u = [] \<or> u = [CHR 0x0A])"
  by simp

lemma retry_Some_iff:
  "(retry its s lo k \<noteq> None) = (\<exists>j. lo \<le> j \<and> j \<le> k \<and> rmatch its (drop j s) \<noteq> None)"
proof
  assume "retry its s lo k \<noteq> None"
  then obtain r where "retry its s lo k = Some r" by auto
  from retry_SomeD [OF this] show "\<exists>j. lo \<le> j \<and> j \<le> k \<and> rmatch its (drop j s) \<noteq> None"
    by auto
next
  assume "\<exists>j. lo \<le> j \<and> j \<le> k \<and> rmatch its (drop j s) \<noteq> None"
  then show "retry its s lo k \<noteq> None" using retry_NoneD [of its s lo k] by fastforce
qed

lemma greedy_all: "list_all (cls_mem c) s \<Longrightarrow> greedy c None s = length s"
  using greedy_ge [of c s None "[]"] greedy_take [of "greedy c None s" c None s] by simp

lemma php_trim_last: "php_trim t \<noteq> [] \<Longrightarrow> \<not> trim_char (last (php_trim t))"
proof -
  assume a: "php_trim t \<noteq> []"
  let ?d = "dropWhile trim_char (rev (dropWhile trim_char t))"
  have ne: "?d \<noteq> []" using a by (simp add: php_trim_def)
  have "last (php_trim t) = hd ?d" using ne by (simp add: php_trim_def last_rev)
  then show ?thesis using hd_dropWhile [OF ne] by simp
qed

lemma target_re_exact:
  assumes "s \<noteq> []" and "\<not> trim_char (last s)"
  shows "(rmatch target_re s \<noteq> None) = list_all (cls_mem TargetChar) s"
proof
  assume "rmatch target_re s \<noteq> None"
  then have "retry [Eos] s 1 (greedy TargetChar None s) \<noteq> None" by (simp add: target_re_def)
  then obtain j where j: "1 \<le> j" "j \<le> greedy TargetChar None s"
    and e: "drop j s = [] \<or> drop j s = [CHR 0x0A]"
    unfolding retry_Some_iff rmatch_Eos_only by blast
  have "drop j s \<noteq> [CHR 0x0A]"
  proof
    assume d: "drop j s = [CHR 0x0A]"
    then have "j < length s" by (metis drop_all linorder_not_le list.distinct(1))
    then have "last (drop j s) = last s" by (simp add: last_drop)
    then have "last s = CHR 0x0A" using d by simp
    then show False using assms(2) by (simp add: trim_char_def byte_def)
  qed
  then have "length s \<le> j" using e by simp
  moreover from greedy_take [OF j(2)] have "list_all (cls_mem TargetChar) (take j s)" by simp
  ultimately show "list_all (cls_mem TargetChar) s" by simp
next
  assume a: "list_all (cls_mem TargetChar) s"
  then have g: "greedy TargetChar None s = length s" by (rule greedy_all)
  have "1 \<le> length s" using assms(1) by (cases s) auto
  then have "\<exists>j. 1 \<le> j \<and> j \<le> greedy TargetChar None s \<and> rmatch [Eos] (drop j s) \<noteq> None"
    using g by (intro exI [of _ "length s"]) simp
  then show "rmatch target_re s \<noteq> None"
    unfolding target_re_def using retry_Some_iff [of "[Eos]" s 1 "greedy TargetChar None s"] by simp
qed

lemma validation_exact_apart_from_zero:
  "php_trim t \<noteq> ''0'' \<Longrightarrow>
   passes_validation (php_trim t) =
     (php_trim t \<noteq> [] \<and> list_all (cls_mem TargetChar) (php_trim t))"
  using target_re_exact [OF _ php_trim_last, of t]
  by (auto simp: passes_validation_def php_empty_def)

lemma validation_examples:
  "passes_validation (php_trim ''example.com'') \<and> passes_validation (php_trim ''192.0.2.1'') \<and>
   passes_validation (php_trim ''a-b.c-d.net'') \<and> \<not> passes_validation (php_trim []) \<and>
   \<not> passes_validation (php_trim ''a;b'') \<and> \<not> passes_validation (php_trim ''a|b'') \<and>
   \<not> passes_validation (php_trim ''a`b'') \<and> \<not> passes_validation (php_trim ''a b'') \<and>
   \<not> passes_validation (php_trim ''a/b'')"
  unfolding passes_validation_def by code_simp

lemma dmatch_Rep:
  "dmatch (Rep c lo hi # its) ms =
     (\<exists>m ms'. ms = m # ms' \<and> lo \<le> length m \<and> at_most hi (length m) \<and>
        list_all (cls_mem c) m \<and> dmatch its ms')"
  by (cases ms) auto

lemma rsearch_skip:
  "(\<And>p u. pre = p @ u \<Longrightarrow> u \<noteq> [] \<Longrightarrow> rmatch its (u @ rest) = None) \<Longrightarrow>
   rsearch its (pre @ rest) = rsearch its rest"
proof (induction pre)
  case Nil
  then show ?case by simp
next
  case (Cons c pre)
  have "rmatch its ((c # pre) @ rest) = None" using Cons.prems [of "[]" "c # pre"] by simp
  moreover have "rsearch its (pre @ rest) = rsearch its rest"
  proof (rule Cons.IH)
    fix p u assume "pre = p @ u" "u \<noteq> []"
    then show "rmatch its (u @ rest) = None" using Cons.prems [of "c # p" u] by simp
  qed
  ultimately show ?case by simp
qed

lemma rsearch_NoneD: "rsearch its s = None \<Longrightarrow> s = p @ u \<Longrightarrow> rmatch its u = None"
proof (induction s arbitrary: p)
  case Nil
  then show ?case by simp
next
  case (Cons c s)
  from Cons.prems(1) have a: "rmatch its (c # s) = None" and b: "rsearch its s = None"
    by (auto split: option.splits)
  show ?case
  proof (cases p)
    case Nil
    then show ?thesis using a Cons.prems(2) by simp
  next
    case (Cons c' p')
    then have "s = p' @ u" using Cons.prems(2) by simp
    from Cons.IH [OF b this] show ?thesis .
  qed
qed

lemma rsearch_hit: "rmatch its (c # s) = Some ms \<Longrightarrow> rsearch its (c # s) = Some ms"
  by simp

lemma rsearch_SomeD: "rsearch its s = Some ms \<Longrightarrow> \<exists>p u. s = p @ u \<and> rmatch its u = Some ms"
proof (induction s)
  case Nil
  then show ?case by simp
next
  case (Cons c s)
  show ?case
  proof (cases "rmatch its (c # s)")
    case None
    with Cons.prems have "rsearch its s = Some ms" by simp
    from Cons.IH [OF this] obtain p u where "s = p @ u" "rmatch its u = Some ms" by blast
    then have "c # s = (c # p) @ u \<and> rmatch its u = Some ms" by simp
    then show ?thesis by blast
  next
    case (Some r)
    with Cons.prems have "c # s = [] @ (c # s) \<and> rmatch its (c # s) = Some ms" by simp
    then show ?thesis by blast
  qed
qed

lemma ipv6_shape:
  assumes "rmatch ipv6_re u = Some ms"
  shows "\<exists>m1 m3 t. ms = [m1, '':'', m3] \<and> 1 \<le> length m1 \<and> length m1 \<le> 4 \<and>
           list_all (cls_mem Hex) m1 \<and> m3 \<noteq> [] \<and> list_all (cls_mem HexColon) m3 \<and>
           u = m1 @ '':'' @ m3 @ t"
proof -
  from rmatch_sound [OF assms] obtain t where d: "dmatch ipv6_re ms" and u: "u = concat ms @ t"
    by blast
  from d obtain m1 m2 m3 where ms: "ms = [m1, m2, m3]" and m1: "1 \<le> length m1" "length m1 \<le> 4"
    "list_all (cls_mem Hex) m1" and m2: "length m2 = 1" "list_all (cls_mem (Lit CHR '':'')) m2"
    and m3: "1 \<le> length m3" "list_all (cls_mem HexColon) m3"
    by (auto simp: ipv6_re_def dmatch_Rep)
  from m2 have "m2 = '':''" by (cases m2) auto
  then show ?thesis using ms m1 m3 u by auto
qed

lemma ipv6_needs_colon: "CHR '':'' \<notin> set s \<Longrightarrow> rsearch ipv6_re s = None"
proof (rule ccontr)
  assume c: "CHR '':'' \<notin> set s" and "rsearch ipv6_re s \<noteq> None"
  then obtain ms where "rsearch ipv6_re s = Some ms" by auto
  from rsearch_SomeD [OF this] obtain p u where s: "s = p @ u" and "rmatch ipv6_re u = Some ms"
    by blast
  from ipv6_shape [OF this(2)] have "CHR '':'' \<in> set u" by auto
  then show False using c s by simp
qed

lemma ipv4_shape:
  assumes "rmatch ipv4_re u = Some ms"
  shows "\<exists>m0 q t. ms = m0 # q \<and> length q = 8 \<and> length m0 \<le> 1 \<and> dmatch ipv4_re ms \<and>
           u = m0 @ concat q @ t \<and> CHR ''['' \<notin> set (concat q) \<and>
           CHR '':'' \<notin> set (concat (take 7 q)) \<and> count_list (concat (take 7 q)) CHR ''.'' = 3"
proof -
  from rmatch_sound [OF assms] obtain t where d: "dmatch ipv4_re ms" and u: "u = concat ms @ t"
    by blast
  from d obtain m0 m1 m2 m3 m4 m5 m6 m7 m8 where ms: "ms = [m0, m1, m2, m3, m4, m5, m6, m7, m8]"
    and l0: "length m0 \<le> 1"
    and dg: "list_all (cls_mem Digit) m1" "list_all (cls_mem Digit) m3"
      "list_all (cls_mem Digit) m5" "list_all (cls_mem Digit) m7"
    and dt: "length m2 = 1" "list_all (cls_mem (Lit CHR ''.'')) m2"
      "length m4 = 1" "list_all (cls_mem (Lit CHR ''.'')) m4"
      "length m6 = 1" "list_all (cls_mem (Lit CHR ''.'')) m6"
    and br: "list_all (cls_mem (Lit CHR '']'')) m8"
    by (auto simp: ipv4_re_def dmatch_Rep)
  have dots: "m2 = ''.''" "m4 = ''.''" "m6 = ''.''" using dt by (cases m2; cases m4; cases m6; auto)+
  have nd: "list_all (cls_mem Digit) m \<Longrightarrow> CHR ''['' \<notin> set m \<and> CHR '':'' \<notin> set m \<and> count_list m CHR ''.'' = 0" for m
    by (induction m) (auto simp: in_range_def byte_def)
  have nb: "CHR ''['' \<notin> set m8" using br by (induction m8) auto
  show ?thesis
    using ms l0 d u dots nd [OF dg(1)] nd [OF dg(2)] nd [OF dg(3)] nd [OF dg(4)] nb
    by (intro exI [of _ m0] exI [of _ "[m1, m2, m3, m4, m5, m6, m7, m8]"] exI [of _ t]) simp
qed

lemma ipv4_not_across_bracket:
  assumes "u \<noteq> []" and "rmatch ipv4_re u = None"
  shows "rmatch ipv4_re (u @ CHR ''['' # rest) = None"
proof (rule ccontr)
  assume "rmatch ipv4_re (u @ CHR ''['' # rest) \<noteq> None"
  then obtain ms where "rmatch ipv4_re (u @ CHR ''['' # rest) = Some ms" by auto
  from ipv4_shape [OF this] obtain m0 q t where ms: "ms = m0 # q" and l0: "length m0 \<le> 1"
    and d: "dmatch ipv4_re ms" and eq: "u @ CHR ''['' # rest = m0 @ concat q @ t"
    and nb: "CHR ''['' \<notin> set (concat q)" by blast
  let ?w = "m0 @ concat q"
  have le: "length ?w \<le> length u"
  proof (rule ccontr)
    assume "\<not> length ?w \<le> length u"
    then have lt: "length u < length ?w" by simp
    have "(u @ CHR ''['' # rest) ! length u = CHR ''[''" by simp
    then have "(?w @ t) ! length u = CHR ''[''" using eq by simp
    then have w: "?w ! length u = CHR ''[''" using lt nth_append [of ?w t "length u"] by simp
    have m0u: "\<not> length u < length m0" using l0 assms(1) by (cases u) auto
    have "?w ! length u = concat q ! (length u - length m0)"
      using m0u nth_append [of m0 "concat q" "length u"] by simp
    then have "concat q ! (length u - length m0) = CHR ''[''" using w by simp
    moreover have "length u - length m0 < length (concat q)" using lt m0u by simp
    ultimately show False using nb nth_mem by metis
  qed
  have "u @ CHR ''['' # rest = ?w @ t" using eq by simp
  then obtain t' where "u = ?w @ t'" using le
    by (metis append_eq_append_conv_if append_take_drop_id)
  then have "u = concat ms @ t'" using ms by simp
  moreover have "no_eos ipv4_re" by (simp add: ipv4_re_def)
  ultimately have "rmatch ipv4_re u \<noteq> None" using rmatch_complete [OF _ d, of t'] by simp
  then show False using assms(2) by simp
qed

lemma greedy_zero: "greedy c (Some 0) s = 0"
  by (cases s) simp_all

lemma greedy_stop: "s = [] \<or> \<not> cls_mem c (hd s) \<Longrightarrow> greedy c hi s = 0"
  by (cases s) auto

lemma ipv4_at_bracket:
  "rmatch ipv4_re (''[192.0.2.5]'' @ post) =
     Some [''['', ''192'', ''.'', ''0'', ''.'', ''2'', ''.'', ''5'', '']'']"
  by (simp add: ipv4_re_def retry_unfold greedy_zero in_range_def byte_def)

lemma ipv6_at_literal:
  "post = [] \<or> \<not> cls_mem HexColon (hd post) \<Longrightarrow>
   rmatch ipv6_re (''2001:4860:0:1::67e'' @ post) = Some [''2001'', '':'', ''4860:0:1::67e'']"
  by (simp add: ipv6_re_def retry_unfold greedy_zero greedy_stop in_range_def byte_def)

lemma ipv6_not_before_literal:
  assumes "u \<noteq> []" and "CHR '':'' \<notin> set u"
  shows "rmatch ipv6_re (u @ ''2001:4860:0:1::67e'' @ post) = None"
proof (rule ccontr)
  let ?s = "u @ ''2001:4860:0:1::67e'' @ post"
  assume "rmatch ipv6_re ?s \<noteq> None"
  then obtain ms where "rmatch ipv6_re ?s = Some ms" by auto
  from ipv6_shape [OF this] obtain m1 m3 t where l: "1 \<le> length m1" "length m1 \<le> 4"
    and eq: "?s = m1 @ '':'' @ m3 @ t" by blast
  have c: "?s ! length m1 = CHR '':''" by (subst eq) (simp add: nth_append)
  show False
  proof (cases "length m1 < length u")
    case True
    then have "u ! length m1 = CHR '':''" using c by (simp add: nth_append)
    then show ?thesis using assms(2) True nth_mem by metis
  next
    case False
    then have k: "length m1 - length u \<le> 3" using l assms(1) by (cases u) auto
    have "(''2001:4860:0:1::67e'' @ post) ! (length m1 - length u) = CHR '':''"
      using c False nth_append [of u "''2001:4860:0:1::67e'' @ post" "length m1"] by simp
    moreover have "length m1 - length u = 0 \<or> length m1 - length u = 1 \<or>
        length m1 - length u = 2 \<or> length m1 - length u = 3" using k by auto
    moreover have "(''2001:4860:0:1::67e'' @ post) ! 0 \<noteq> CHR '':''"
      "(''2001:4860:0:1::67e'' @ post) ! 1 \<noteq> CHR '':''"
      "(''2001:4860:0:1::67e'' @ post) ! 2 \<noteq> CHR '':''"
      "(''2001:4860:0:1::67e'' @ post) ! 3 \<noteq> CHR '':''" by simp_all
    ultimately show ?thesis by metis
  qed
qed

lemma parse_single:
  "parseTraceroute [line] w =
     (if skipped line then [] else case line_ip line of None \<Rightarrow> [] | Some ip \<Rightarrow> [ip])"
  by (simp add: parseTraceroute_def split: option.splits)

lemma line_ip_bracketed:
  assumes "CHR '':'' \<notin> set (pre @ post)" and "rsearch ipv4_re pre = None"
  shows "line_ip (pre @ ''[192.0.2.5]'' @ post) = Some ''192.0.2.5''"
proof -
  have "CHR '':'' \<notin> set (pre @ ''[192.0.2.5]'' @ post)" using assms(1) by simp
  then have six: "rsearch ipv6_re (pre @ ''[192.0.2.5]'' @ post) = None" by (rule ipv6_needs_colon)
  have "rsearch ipv4_re (pre @ ''[192.0.2.5]'' @ post) = rsearch ipv4_re (''[192.0.2.5]'' @ post)"
  proof (rule rsearch_skip)
    fix p u assume pu: "pre = p @ u" "u \<noteq> []"
    then have "rmatch ipv4_re u = None" using rsearch_NoneD [OF assms(2)] by simp
    from ipv4_not_across_bracket [OF pu(2) this]
    show "rmatch ipv4_re (u @ ''[192.0.2.5]'' @ post) = None" by simp
  qed
  also have "\<dots> = Some [''['', ''192'', ''.'', ''0'', ''.'', ''2'', ''.'', ''5'', '']'']"
    using ipv4_at_bracket [of post] rsearch_hit [of ipv4_re "CHR ''[''" "''192.0.2.5]'' @ post"]
    by simp
  finally show ?thesis using six by (simp add: line_ip_def)
qed

lemma line_ip_ipv6_literal:
  assumes "CHR '':'' \<notin> set pre" and "post = [] \<or> \<not> cls_mem HexColon (hd post)"
  shows "line_ip (pre @ ''2001:4860:0:1::67e'' @ post) = Some ''2001:4860:0:1::67e''"
proof -
  have "rsearch ipv6_re (pre @ ''2001:4860:0:1::67e'' @ post) =
      rsearch ipv6_re (''2001:4860:0:1::67e'' @ post)"
  proof (rule rsearch_skip)
    fix p u assume pu: "pre = p @ u" "u \<noteq> []"
    then have "CHR '':'' \<notin> set u" using assms(1) by simp
    from ipv6_not_before_literal [OF pu(2) this]
    show "rmatch ipv6_re (u @ ''2001:4860:0:1::67e'' @ post) = None" .
  qed
  also have "\<dots> = Some [''2001'', '':'', ''4860:0:1::67e'']"
    using ipv6_at_literal [OF assms(2)]
      rsearch_hit [of ipv6_re "CHR ''2''" "''001:4860:0:1::67e'' @ post"]
    by simp
  finally show ?thesis by (simp add: line_ip_def)
qed

text \<open>An extracted address holds a colon or exactly three dots, so it is never a
  numeric string, and the loose comparison of \<open>in_array\<close> is string equality on the
  addresses.\<close>

lemma line_ip_shape:
  assumes "line_ip l = Some a"
  shows "CHR '':'' \<in> set a \<or> count_list a CHR ''.'' = 3"
proof (cases "rsearch ipv6_re l")
  case (Some ms)
  from rsearch_SomeD [OF this] obtain p u where "rmatch ipv6_re u = Some ms" by blast
  from ipv6_shape [OF this] have c: "CHR '':'' \<in> set (concat ms)" by auto
  have "a = concat ms" using assms Some by (simp add: line_ip_def)
  then show ?thesis using c by blast
next
  case None
  with assms obtain ms where ms: "rsearch ipv4_re l = Some ms" and a: "a = concat (take 7 (drop 1 ms))"
    by (auto simp: line_ip_def split: option.splits)
  from rsearch_SomeD [OF ms] obtain p u where "rmatch ipv4_re u = Some ms" by blast
  from ipv4_shape [OF this] obtain m0 q where "ms = m0 # q"
    and "count_list (concat (take 7 q)) CHR ''.'' = 3" by blast
  then show ?thesis using a by simp
qed

section \<open>The properties\<close>

text \<open>
  C2. Whatever the raw output lines, the list the parser returns holds no address twice,
  holds exactly the addresses read off the lines, and orders them by where each first
  appears among those; parsing the same lines again gives the same list. (\<open>in_array\<close>
  compares loosely, which for two strings differs from string equality only when both are
  numeric; an extracted address holds a colon or three dots and never is.)
\<close>

theorem parse_dedup_first_appearance:
  "distinct (parseTraceroute ls w) \<and>
   set (parseTraceroute ls w) = set (line_addresses ls) \<and>
   (\<forall>i j. i < j \<and> j < length (parseTraceroute ls w) \<longrightarrow>
      first_index (line_addresses ls) (parseTraceroute ls w ! i)
        < first_index (line_addresses ls) (parseTraceroute ls w ! j)) \<and>
   (ls' = ls \<longrightarrow> parseTraceroute ls' w = parseTraceroute ls w)"
  unfolding parseTraceroute_def parse_lines_fold using fold_add_new_props by simp

theorem parse_dedup_first_appearance_witness:
  "parseTraceroute ['' 1  192.0.2.1  1 ms'', '' 2  * * *'', '' 3  192.0.2.9  2 ms'',
      '' 4  192.0.2.1  3 ms''] False = [''192.0.2.1'', ''192.0.2.9''] \<and>
   distinct (parseTraceroute ['' 1  192.0.2.1  1 ms'', '' 2  * * *'', '' 3  192.0.2.9  2 ms'',
      '' 4  192.0.2.1  3 ms''] False) \<and>
   first_index (line_addresses ['' 1  192.0.2.1  1 ms'', '' 2  * * *'', '' 3  192.0.2.9  2 ms'',
      '' 4  192.0.2.1  3 ms''])
      (parseTraceroute ['' 1  192.0.2.1  1 ms'', '' 2  * * *'', '' 3  192.0.2.9  2 ms'',
      '' 4  192.0.2.1  3 ms''] False ! 0)
    < first_index (line_addresses ['' 1  192.0.2.1  1 ms'', '' 2  * * *'', '' 3  192.0.2.9  2 ms'',
      '' 4  192.0.2.1  3 ms''])
      (parseTraceroute ['' 1  192.0.2.1  1 ms'', '' 2  * * *'', '' 3  192.0.2.9  2 ms'',
      '' 4  192.0.2.1  3 ms''] False ! 1)"
proof -
  let ?L = "['' 1  192.0.2.1  1 ms'', '' 2  * * *'', '' 3  192.0.2.9  2 ms'',
      '' 4  192.0.2.1  3 ms'']"
  have ev: "parseTraceroute ?L False = [''192.0.2.1'', ''192.0.2.9'']"
    unfolding parseTraceroute_def by code_simp
  then have "(0::nat) < 1 \<and> 1 < length (parseTraceroute ?L False)" by simp
  then show ?thesis
    using parse_dedup_first_appearance [of ?L False ?L] ev by blast
qed

text \<open>
  C7. For \<open>N\<close> addresses the enricher is to make \<open>N - 1\<close> delays, one between
  each two consecutive lookups. It does whenever no lookup raises
  (\<open>delays_when_lookups_return\<close>). With three addresses and a service whose body for
  the first is a JSON string, the first lookup raises, the loop is left, and one lookup
  and no delay have been made.
\<close>

theorem delays_cut_short_by_throw:
  "hop_addresses env_string_body ''example.com'' = [''192.0.2.1'', ''192.0.2.5'', ''192.0.2.9''] \<and>
   getGeolocations env_string_body [''192.0.2.1'', ''192.0.2.5'', ''192.0.2.9''] =
     (Inl (TypeError ''Cannot access offset of type string on string''),
      [Fetch (geo_url ''192.0.2.1'')]) \<and>
   length (filter (\<lambda>ev. ev = Usleep 700000)
     (snd (getGeolocations env_string_body [''192.0.2.1'', ''192.0.2.5'', ''192.0.2.9'']))) = 0 \<and>
   snd (trace_php env_string_body (Some ''example.com'')) =
     [Exec (''traceroute -m 15 -w 1 '' @ unix_quote ''example.com''),
      Fetch (geo_url ''192.0.2.1'')]"
  by (simp add: hop_addresses_def env_string_body_run three_lines_parse
      env_string_body_lookups env_string_body_response)




text \<open>
  C9, as stated: some raw output is parsed differently with the Windows flag set than
  with it unset. The parser never reads the flag, so no such output exists.
\<close>

theorem parse_flag_counterexample:
  "\<not> (\<exists>ls. parseTraceroute ls True \<noteq> parseTraceroute ls False)"
  by (simp add: parseTraceroute_def)

text \<open>
  C9, amended. The platform flag selects the command of the invocation only; the parser
  does not depend on it: every raw output is parsed to the same address list whether the
  flag is set or not.
\<close>

theorem parse_ignores_flag:
  "parseTraceroute ls w = parseTraceroute ls w'"
  by (simp add: parseTraceroute_def)

theorem parse_ignores_flag_witness:
  "parseTraceroute [''  1    <1 ms    <1 ms    <1 ms  192.0.2.1'',
                    ''  2     *        *        *     Request timed out.''] True =
   parseTraceroute [''  1    <1 ms    <1 ms    <1 ms  192.0.2.1'',
                    ''  2     *        *        *     Request timed out.''] False"
  using parse_ignores_flag [of "[''  1    <1 ms    <1 ms    <1 ms  192.0.2.1'',
                    ''  2     *        *        *     Request timed out.'']" True False]
  by simp



text \<open>
  C8. For a target that passes validation, the endpoint answers with the error envelope
  \<open>Traceroute command failed or returned no output\<close> exactly when the command it ran
  printed no line; and whatever exit status the process returns, the response and the
  calls made are the same.
\<close>

theorem discovery_failure_iff_no_output:
  assumes "passes_validation (php_trim t)"
  shows "(fst (trace_php e (Some t)) =
            PMap [(''error'', PStr ''Traceroute command failed or returned no output''),
                  (''target'', PStr (php_trim t))])
           = (output_lines (fst (executeTraceroute e (php_trim t))) = []) \<and>
         (\<exists>cmd. snd (executeTraceroute e (php_trim t)) = [Exec cmd] \<and>
            output_lines (fst (executeTraceroute e (php_trim t))) = fst (exec e cmd)) \<and>
         trace_php (e\<lparr>exec := \<lambda>c. (fst (exec e c), rc c)\<rparr>) g = trace_php e g"
proof -
  have a: "(fst (trace_php e (Some t)) =
            PMap [(''error'', PStr ''Traceroute command failed or returned no output''),
                  (''target'', PStr (php_trim t))])
           = (output_lines (fst (executeTraceroute e (php_trim t))) = [])"
    using assms by (simp add: trace_php_valid Let_def split: sum.splits throwable.splits)
  have b: "\<exists>cmd. snd (executeTraceroute e (php_trim t)) = [Exec cmd] \<and>
            output_lines (fst (executeTraceroute e (php_trim t))) = fst (exec e cmd)"
    by (simp add: executeTraceroute_def Let_def case_prod_beta)
  show ?thesis using a b trace_php_exit_status by blast
qed

theorem discovery_failure_iff_no_output_witness:
  "passes_validation (php_trim ''example.com'') \<and>
   output_lines (fst (executeTraceroute env_no_output (php_trim ''example.com''))) = [] \<and>
   fst (trace_php env_no_output (Some ''example.com'')) =
     PMap [(''error'', PStr ''Traceroute command failed or returned no output''),
           (''target'', PStr ''example.com'')] \<and>
   trace_php (env_no_output\<lparr>exec := \<lambda>c. (fst (exec env_no_output c), 3)\<rparr>) (Some ''example.com'')
     = trace_php env_no_output (Some ''example.com'')"
proof -
  have t: "php_trim ''example.com'' = ''example.com''" by code_simp
  have a: "passes_validation (php_trim ''example.com'')"
    unfolding passes_validation_def by code_simp
  show ?thesis
    using discovery_failure_iff_no_output [OF a, of env_no_output "\<lambda>c. 3" "Some ''example.com''"] a
    by (simp add: t env_no_output_run)
qed

text \<open>
  C6. In every response that carries \<open>success: true\<close>, \<open>hops\<close> is a list with one
  entry per address the parser extracted, in that order; the entry at position \<open>i\<close>
  (counted from 0) is the lookup record of the \<open>i\<close>-th address with \<open>hop = i + 1\<close>, so
  the hop numbers run 1, 2, ..., n; and \<open>hopCount\<close> is the length of \<open>hops\<close>.
\<close>

theorem hop_numbers_contiguous:
  assumes "trace_php e g = (PMap r, evs)" and "array_get r ''success'' = PBool True"
  shows "\<exists>hops t. g = Some t \<and>
           array_get r ''hops'' = PList hops \<and>
           array_get r ''hopCount'' = PInt (int (length hops)) \<and>
           length hops = length (hop_addresses e (php_trim t)) \<and>
           (\<forall>i<length hops. \<exists>m geo. hops ! i = PMap m \<and> array_get m ''hop'' = PInt (int i + 1) \<and>
              getGeolocation e (hop_addresses e (php_trim t) ! i) = Inr geo \<and>
              m = array_set geo ''hop'' (PInt (int i + 1)))"
proof (cases g)
  case None
  then show ?thesis using assms by (auto simp: trace_php_def php_empty_def array_get_def)
next
  case (Some t)
  show ?thesis
  proof (cases "passes_validation (php_trim t)")
    case False
    from trace_php_invalid [OF this, of e] assms Some show ?thesis
      by (auto simp: array_get_def)
  next
    case True
    let ?ips = "hop_addresses e (php_trim t)"
    from assms Some trace_php_valid [OF True, of e]
    obtain hs where hs: "fst (getGeolocations e ?ips) = Inr hs"
      and r: "r = [(''success'', PBool True), (''target'', PStr (php_trim t)),
        (''timestamp'', PStr (date e)), (''hopCount'', PInt (int (length hs))),
        (''hops'', PList hs)]"
      by (auto simp: Let_def array_get_def split: if_splits sum.splits throwable.splits)
    have nr: "\<forall>ip\<in>set ?ips. \<not> raises (fetch e (geo_url ip))"
      using hs geo_loop_InrD unfolding getGeolocations_def by blast
    from getGeolocations_hops [OF nr] hs have len: "length hs = length ?ips"
      and el: "\<forall>i<length ?ips. hs ! i =
        PMap (array_set (record_of e (?ips ! i)) ''hop'' (PInt (int i + 1)))" by auto
    have "array_get r ''hops'' = PList hs" "array_get r ''hopCount'' = PInt (int (length hs))"
      by (simp_all add: r array_get_def)
    moreover have "\<exists>m geo. hs ! i = PMap m \<and> array_get m ''hop'' = PInt (int i + 1) \<and>
              getGeolocation e (?ips ! i) = Inr geo \<and>
              m = array_set geo ''hop'' (PInt (int i + 1))" if "i < length hs" for i
    proof -
      have "\<not> raises (fetch e (geo_url (?ips ! i)))" using that len nr by simp
      then have "getGeolocation e (?ips ! i) = Inr (record_of e (?ips ! i))"
        by (simp add: getGeolocation_cases)
      then show ?thesis using el that len by (simp add: array_get_set)
    qed
    ultimately show ?thesis using Some len by blast
  qed
qed

theorem hop_numbers_contiguous_witness:
  "\<exists>r evs hops. trace_php env_lookup_mixed (Some ''example.com'') = (PMap r, evs) \<and>
     array_get r ''success'' = PBool True \<and>
     array_get r ''hops'' = PList hops \<and>
     array_get r ''hopCount'' = PInt 2 \<and> length hops = 2 \<and>
     (\<exists>m. hops ! 0 = PMap m \<and> array_get m ''hop'' = PInt 1) \<and>
     (\<exists>m. hops ! 1 = PMap m \<and> array_get m ''hop'' = PInt 2)"
proof -
  obtain r evs where resp: "trace_php env_lookup_mixed (Some ''example.com'') = (PMap r, evs)"
    and succ: "array_get r ''success'' = PBool True"
    using env_lookup_mixed_response by (simp add: array_get_def)
  from hop_numbers_contiguous [OF resp succ] obtain hops t where
    t: "Some ''example.com'' = Some t"
    and h: "array_get r ''hops'' = PList hops"
      "array_get r ''hopCount'' = PInt (int (length hops))"
      "length hops = length (hop_addresses env_lookup_mixed (php_trim t))"
      "\<forall>i<length hops. \<exists>m geo. hops ! i = PMap m \<and> array_get m ''hop'' = PInt (int i + 1) \<and>
         getGeolocation env_lookup_mixed (hop_addresses env_lookup_mixed (php_trim t) ! i) = Inr geo \<and>
         m = array_set geo ''hop'' (PInt (int i + 1))"
    by blast
  have len: "length hops = 2"
    using h(3) t example_com_valid by (auto simp: env_lookup_mixed_addresses)
  then have "\<exists>m. hops ! 0 = PMap m \<and> array_get m ''hop'' = PInt 1"
    "\<exists>m. hops ! 1 = PMap m \<and> array_get m ''hop'' = PInt 2"
    using h(4) by (auto dest: spec [of _ 0] spec [of _ 1])
  then show ?thesis using resp succ h(1,2) len by auto
qed

text \<open>
  C1, as stated: a hop whose lookup failed carries all nine enrichment fields, each
  \<open>null\<close>, and the response reports success whatever the failure. Three worlds refute
  it. With the service unreachable the request succeeds, but the record of the first hop
  has no member \<open>countryCode\<close>, \<open>region\<close>, \<open>org\<close> or \<open>as\<close>. With a body that is a
  JSON string the lookup raises and the response is an error envelope. With a body that
  is not JSON for one address and a document holding an infinite latitude for another,
  nothing is printed.
\<close>

theorem failed_lookup_counterexample:
  "lookup_failed (fetch env_lookup_down (geo_url ''192.0.2.1'')) \<and>
   response_body env_lookup_down (Some ''example.com'') =
     Some (PMap [(''success'', PBool True), (''target'', PStr ''example.com''),
            (''timestamp'', PStr ''2024-01-01 00:00:00''), (''hopCount'', PInt 2),
            (''hops'', PList
               [PMap [(''ip'', PStr ''192.0.2.1''), (''country'', PNull), (''city'', PNull),
                      (''lat'', PNull), (''lon'', PNull), (''isp'', PNull), (''hop'', PInt 1)],
                PMap [(''ip'', PStr ''192.0.2.9''), (''country'', PNull), (''city'', PNull),
                      (''lat'', PNull), (''lon'', PNull), (''isp'', PNull), (''hop'', PInt 2)]])]) \<and>
   \<not> list_all (\<lambda>k. map_of (record_of env_lookup_down ''192.0.2.1'') k = Some PNull)
       [''country'', ''countryCode'', ''region'', ''city'', ''lat'', ''lon'', ''isp'', ''org'', ''as''] \<and>
   lookup_failed (fetch env_string_body (geo_url ''192.0.2.1'')) \<and>
   response_body env_string_body (Some ''example.com'') =
     Some (PMap [(''error'', PStr (''An unexpected error occurred: '' @
                   ''Cannot access offset of type string on string'')),
                 (''target'', PStr ''example.com'')]) \<and>
   lookup_failed (fetch env_infinite (geo_url ''192.0.2.1'')) \<and>
   response_body env_infinite (Some ''example.com'') = None"
proof -
  have a: "lookup_failed (fetch env_lookup_down (geo_url ''192.0.2.1''))"
    "lookup_failed (fetch env_string_body (geo_url ''192.0.2.1''))"
    "lookup_failed (fetch env_infinite (geo_url ''192.0.2.1''))"
    by (simp_all add: lookup_failed_def env_lookup_down_def env_string_body_def env_infinite_def)
  have b: "record_of env_lookup_down ''192.0.2.1'' =
      [(''ip'', PStr ''192.0.2.1''), (''country'', PNull), (''city'', PNull),
       (''lat'', PNull), (''lon'', PNull), (''isp'', PNull)]"
    by (simp add: record_of_def getGeolocation_def env_lookup_down_def)
  have c: "response_body env_infinite (Some ''example.com'') = None"
    by (simp add: response_body_def env_infinite_response json_encode_def)
  have d: "response_body env_string_body (Some ''example.com'') =
     Some (PMap [(''error'', PStr (''An unexpected error occurred: '' @
                   ''Cannot access offset of type string on string'')),
                 (''target'', PStr ''example.com'')])"
    by (simp add: response_body_def env_string_body_response json_encode_def)
  have e: "response_body env_lookup_down (Some ''example.com'') =
     Some (PMap [(''success'', PBool True), (''target'', PStr ''example.com''),
            (''timestamp'', PStr ''2024-01-01 00:00:00''), (''hopCount'', PInt 2),
            (''hops'', PList
               [PMap [(''ip'', PStr ''192.0.2.1''), (''country'', PNull), (''city'', PNull),
                      (''lat'', PNull), (''lon'', PNull), (''isp'', PNull), (''hop'', PInt 1)],
                PMap [(''ip'', PStr ''192.0.2.9''), (''country'', PNull), (''city'', PNull),
                      (''lat'', PNull), (''lon'', PNull), (''isp'', PNull), (''hop'', PInt 2)]])])"
    by (simp add: response_body_def env_lookup_down_response json_encode_def)
  show ?thesis using a c d e by (simp add: b)
qed

text \<open>
  C1, amended. Take a request that reaches enrichment (the target passes validation, the
  traceroute printed a line, the parser extracted an address), in which no lookup raises
  and the members of the documents of the lookups that succeed are values
  \<open>json_encode\<close> accepts there. Then the response printed carries \<open>success: true\<close>
  and one hop per address, however many lookups failed; and every hop whose lookup failed
  is the minimal record: \<open>ip\<close> the address itself, \<open>country\<close>, \<open>city\<close>, \<open>lat\<close>,
  \<open>lon\<close> and \<open>isp\<close> \<open>null\<close>, the hop number, and no other member. What the
  endpoint does when a lookup raises or a value cannot be encoded is not part of the
  statement.
\<close>

theorem failed_lookup_degrades_hop:
  assumes "passes_validation (php_trim t)"
    and "output_lines (fst (executeTraceroute e (php_trim t))) \<noteq> []"
    and "hop_addresses e (php_trim t) \<noteq> []"
    and "\<forall>ip\<in>set (hop_addresses e (php_trim t)).
           \<not> raises (fetch e (geo_url ip)) \<and> encodable_reply (fetch e (geo_url ip))"
  shows "\<exists>hops. response_body e (Some t) =
             Some (PMap [(''success'', PBool True), (''target'', PStr (php_trim t)),
                         (''timestamp'', PStr (date e)),
                         (''hopCount'', PInt (int (length hops))), (''hops'', PList hops)]) \<and>
           length hops = length (hop_addresses e (php_trim t)) \<and>
           (\<forall>i<length hops.
              lookup_failed (fetch e (geo_url (hop_addresses e (php_trim t) ! i))) \<longrightarrow>
              hops ! i = PMap [(''ip'', PStr (hop_addresses e (php_trim t) ! i)),
                               (''country'', PNull), (''city'', PNull), (''lat'', PNull),
                               (''lon'', PNull), (''isp'', PNull), (''hop'', PInt (int i + 1))])"
proof -
  let ?ips = "hop_addresses e (php_trim t)"
  have nr: "\<forall>ip\<in>set ?ips. \<not> raises (fetch e (geo_url ip))" using assms(4) by simp
  from getGeolocations_hops [OF nr] obtain hops where
    h: "fst (getGeolocations e ?ips) = Inr hops" and len: "length hops = length ?ips"
    and el: "\<forall>i<length ?ips. hops ! i =
        PMap (array_set (record_of e (?ips ! i)) ''hop'' (PInt (int i + 1)))" by blast
  let ?r = "PMap [(''success'', PBool True), (''target'', PStr (php_trim t)),
                  (''timestamp'', PStr (date e)),
                  (''hopCount'', PInt (int (length hops))), (''hops'', PList hops)]"
  have v: "fst (trace_php e (Some t)) = ?r"
    using assms(1,2,3) h by (simp add: trace_php_valid Let_def)
  have "fits 510 (hops ! i)" if "i < length hops" for i
  proof -
    have i: "?ips ! i \<in> set ?ips" using that len by simp
    have "list_all (\<lambda>kv. fits 509 (snd kv)) (record_of e (?ips ! i))"
      using assms(4) i record_of_fits by blast
    then have "list_all (\<lambda>kv. fits 509 (snd kv))
        (array_set (record_of e (?ips ! i)) ''hop'' (PInt (int i + 1)))"
      by (rule fits_array_set) simp
    then have "fits (Suc 509) (PMap (array_set (record_of e (?ips ! i)) ''hop'' (PInt (int i + 1))))"
      by (rule fits_PMap)
    then show ?thesis using el that len by simp
  qed
  then have "list_all (fits 510) hops" by (simp add: list_all_length)
  then have "fits (Suc 510) (PList hops)" by (rule fits_PList)
  then have "list_all (\<lambda>kv. fits 511 (snd kv))
      [(''success'', PBool True), (''target'', PStr (php_trim t)),
       (''timestamp'', PStr (date e)),
       (''hopCount'', PInt (int (length hops))), (''hops'', PList hops)]" by simp
  then have "fits (Suc 511) ?r" by (rule fits_PMap)
  then have b: "response_body e (Some t) = Some ?r"
    using v json_encode_fits by (simp add: response_body_def)
  have "hops ! i = PMap [(''ip'', PStr (?ips ! i)),
                               (''country'', PNull), (''city'', PNull), (''lat'', PNull),
                               (''lon'', PNull), (''isp'', PNull), (''hop'', PInt (int i + 1))]"
    if "i < length hops" "lookup_failed (fetch e (geo_url (?ips ! i)))" for i
  proof -
    have "\<not> raises (fetch e (geo_url (?ips ! i)))" using that(1) len nr by simp
    from record_of_failed [OF that(2) this] show ?thesis using el that(1) len by simp
  qed
  then show ?thesis using b len by blast
qed

theorem failed_lookup_degrades_hop_witness:
  "passes_validation (php_trim ''example.com'') \<and>
   output_lines (fst (executeTraceroute env_lookup_mixed (php_trim ''example.com''))) \<noteq> [] \<and>
   hop_addresses env_lookup_mixed (php_trim ''example.com'') = [''192.0.2.1'', ''192.0.2.9''] \<and>
   \<not> raises (fetch env_lookup_mixed (geo_url ''192.0.2.1'')) \<and>
   encodable_reply (fetch env_lookup_mixed (geo_url ''192.0.2.1'')) \<and>
   \<not> raises (fetch env_lookup_mixed (geo_url ''192.0.2.9'')) \<and>
   encodable_reply (fetch env_lookup_mixed (geo_url ''192.0.2.9'')) \<and>
   lookup_failed (fetch env_lookup_mixed (geo_url ''192.0.2.1'')) \<and>
   (\<exists>hops. response_body env_lookup_mixed (Some ''example.com'') =
             Some (PMap [(''success'', PBool True), (''target'', PStr ''example.com''),
                   (''timestamp'', PStr ''2024-01-01 00:00:00''),
                   (''hopCount'', PInt (int (length hops))), (''hops'', PList hops)]) \<and>
      hops ! 0 = PMap [(''ip'', PStr ''192.0.2.1''), (''country'', PNull), (''city'', PNull),
                       (''lat'', PNull), (''lon'', PNull), (''isp'', PNull), (''hop'', PInt 1)])"
proof -
  let ?e = env_lookup_mixed
  have t: "php_trim ''example.com'' = ''example.com''" using example_com_valid by simp
  have a: "passes_validation (php_trim ''example.com'')" using example_com_valid by simp
  have b: "output_lines (fst (executeTraceroute ?e (php_trim ''example.com''))) \<noteq> []"
    by (simp add: env_lookup_mixed_run)
  have ips: "hop_addresses ?e (php_trim ''example.com'') = [''192.0.2.1'', ''192.0.2.9'']"
    by (simp add: t env_lookup_mixed_addresses)
  then have c: "hop_addresses ?e (php_trim ''example.com'') \<noteq> []" by simp
  have r: "\<not> raises (fetch ?e (geo_url ''192.0.2.1''))"
    "encodable_reply (fetch ?e (geo_url ''192.0.2.1''))"
    "\<not> raises (fetch ?e (geo_url ''192.0.2.9''))"
    "encodable_reply (fetch ?e (geo_url ''192.0.2.9''))"
    by (simp_all add: env_lookup_mixed_def geo_url_inject array_get_def fits_def)
  have f: "lookup_failed (fetch ?e (geo_url ''192.0.2.1''))"
    by (simp add: lookup_failed_def env_lookup_mixed_def array_get_def)
  have d: "\<forall>ip\<in>set (hop_addresses ?e (php_trim ''example.com'')).
      \<not> raises (fetch ?e (geo_url ip)) \<and> encodable_reply (fetch ?e (geo_url ip))"
    using r by (simp add: ips)
  from failed_lookup_degrades_hop [OF a b c d] obtain hops where
    rb: "response_body ?e (Some ''example.com'') =
             Some (PMap [(''success'', PBool True), (''target'', PStr (php_trim ''example.com'')),
                   (''timestamp'', PStr (date ?e)),
                   (''hopCount'', PInt (int (length hops))), (''hops'', PList hops)])"
    and l: "length hops = length (hop_addresses ?e (php_trim ''example.com''))"
    and h: "\<forall>i<length hops.
        lookup_failed (fetch ?e (geo_url (hop_addresses ?e (php_trim ''example.com'') ! i))) \<longrightarrow>
        hops ! i = PMap [(''ip'', PStr (hop_addresses ?e (php_trim ''example.com'') ! i)),
                         (''country'', PNull), (''city'', PNull), (''lat'', PNull),
                         (''lon'', PNull), (''isp'', PNull), (''hop'', PInt (int i + 1))]"
    by blast
  have "0 < length hops" using l by (simp add: ips)
  with h f have "hops ! 0 = PMap [(''ip'', PStr ''192.0.2.1''), (''country'', PNull),
      (''city'', PNull), (''lat'', PNull), (''lon'', PNull), (''isp'', PNull), (''hop'', PInt 1)]"
    by (simp add: ips)
  moreover have "date ?e = ''2024-01-01 00:00:00''" by (simp add: env_lookup_mixed_def)
  ultimately show ?thesis using a b ips r f rb t by auto
qed

text \<open>
  C3. Apart from targets that trim to \<open>0\<close>, the validation accepts exactly the inputs
  whose trimmed form is not empty and made of letters, digits, dots and hyphens
  (\<open>validation_exact_apart_from_zero\<close>), and the named examples come out as the spec
  lists them (\<open>validation_examples\<close>). The target \<open>0\<close> is not empty after trimming and
  is made of allowed characters only, yet it does not pass: the endpoint answers with
  \<open>Target parameter is required\<close>, before any external call.
\<close>

theorem validation_rejects_zero:
  "php_trim ''0'' \<noteq> [] \<and> list_all (cls_mem TargetChar) (php_trim ''0'') \<and>
   \<not> passes_validation (php_trim ''0'') \<and>
   fst (trace_php e (Some ''0'')) =
     PMap [(''error'', PStr ''Target parameter is required''),
           (''usage'', PStr ''api/trace.php?target=google.com'')] \<and>
   snd (trace_php e (Some ''0'')) = []"
proof -
  have a: "php_trim ''0'' = ''0''" by code_simp
  have b: "list_all (cls_mem TargetChar) ''0''" by code_simp
  show ?thesis using a b by (simp add: trace_php_def php_empty_def passes_validation_def)
qed

text \<open>
  C4, as stated: a line that holds \<open>[192.0.2.5]\<close> yields \<open>192.0.2.5\<close>, and a line that
  holds \<open>2001:4860:0:1::67e\<close> yields exactly that literal. Lines that hold the one or
  the other and yield something else: an earlier dotted quad or an earlier colon group is
  the leftmost match, a run of hexadecimal digits after the literal is part of the match,
  and a hop of asterisks is skipped whatever follows.
\<close>

theorem parser_line_counterexample:
  "find_from ''[192.0.2.5]'' '' 3  10.0.0.1 [192.0.2.5]'' 0 = Some 13 \<and>
   parseTraceroute ['' 3  10.0.0.1 [192.0.2.5]''] False = [''10.0.0.1''] \<and>
   find_from ''[192.0.2.5]'' '' 3  * * * [192.0.2.5]'' 0 = Some 10 \<and>
   parseTraceroute ['' 3  * * * [192.0.2.5]''] False = [] \<and>
   find_from ''[192.0.2.5]'' ''12:34 [192.0.2.5]'' 0 = Some 6 \<and>
   parseTraceroute [''12:34 [192.0.2.5]''] False = [''12:34''] \<and>
   find_from ''2001:4860:0:1::67e'' ''12:34:56 2001:4860:0:1::67e'' 0 = Some 9 \<and>
   parseTraceroute [''12:34:56 2001:4860:0:1::67e''] False = [''12:34:56''] \<and>
   find_from ''2001:4860:0:1::67e'' ''2001:4860:0:1::67eab'' 0 = Some 0 \<and>
   parseTraceroute [''2001:4860:0:1::67eab''] False = [''2001:4860:0:1::67eab''] \<and>
   find_from ''2001:4860:0:1::67e'' '' 3  * * * 2001:4860:0:1::67e'' 0 = Some 10 \<and>
   parseTraceroute ['' 3  * * * 2001:4860:0:1::67e''] False = []"
  unfolding parseTraceroute_def by code_simp

text \<open>
  C4, amended. The line \<open>3  * * *\<close> yields no address. A line that holds
  \<open>[192.0.2.5]\<close>, is not skipped, has no colon and no dotted quad before the bracket
  yields \<open>192.0.2.5\<close>. A line that holds \<open>2001:4860:0:1::67e\<close>, is not skipped, has no
  colon before the literal and no hexadecimal digit or colon right after it yields exactly
  that literal and nothing else. On every line an IPv6 match, when there is one, is the
  address of the line, the IPv4 pattern being tried only without it; and no line yields
  more than one address.
\<close>

theorem parser_line_examples:
  "parseTraceroute [''3  * * *''] w = [] \<and>
   (\<not> skipped (pre @ ''[192.0.2.5]'' @ post) \<and> CHR '':'' \<notin> set (pre @ post) \<and>
      rsearch ipv4_re pre = None \<longrightarrow>
    parseTraceroute [pre @ ''[192.0.2.5]'' @ post] w = [''192.0.2.5'']) \<and>
   (\<not> skipped (pre' @ ''2001:4860:0:1::67e'' @ post') \<and> CHR '':'' \<notin> set pre' \<and>
      (post' = [] \<or> \<not> cls_mem HexColon (hd post')) \<longrightarrow>
    parseTraceroute [pre' @ ''2001:4860:0:1::67e'' @ post'] w = [''2001:4860:0:1::67e'']) \<and>
   (rsearch ipv6_re line \<noteq> None \<longrightarrow> line_ip line = map_option concat (rsearch ipv6_re line)) \<and>
   length (parseTraceroute [line] w) \<le> 1"
proof -
  have a: "parseTraceroute [''3  * * *''] w = []"
    unfolding parseTraceroute_def by code_simp
  have b: "parseTraceroute [pre @ ''[192.0.2.5]'' @ post] w = [''192.0.2.5'']"
    if "\<not> skipped (pre @ ''[192.0.2.5]'' @ post)" "CHR '':'' \<notin> set (pre @ post)"
      "rsearch ipv4_re pre = None"
    using that line_ip_bracketed [of pre post] by (simp add: parse_single)
  have c: "parseTraceroute [pre' @ ''2001:4860:0:1::67e'' @ post'] w = [''2001:4860:0:1::67e'']"
    if "\<not> skipped (pre' @ ''2001:4860:0:1::67e'' @ post')" "CHR '':'' \<notin> set pre'"
      "post' = [] \<or> \<not> cls_mem HexColon (hd post')"
    using that line_ip_ipv6_literal [of pre' post'] by (simp add: parse_single)
  have d: "rsearch ipv6_re line \<noteq> None \<longrightarrow> line_ip line = map_option concat (rsearch ipv6_re line)"
    by (auto simp: line_ip_def)
  have e: "length (parseTraceroute [line] w) \<le> 1"
    by (simp add: parse_single split: option.splits)
  show ?thesis using a b c d e by blast
qed

theorem parser_line_examples_witness:
  "parseTraceroute [''  3    12 ms    11 ms    12 ms  router.example.net [192.0.2.5]''] True =
     [''192.0.2.5''] \<and>
   parseTraceroute ['' 3  2001:4860:0:1::67e (2001:4860:0:1::67e)  12.3 ms''] False =
     [''2001:4860:0:1::67e''] \<and>
   parseTraceroute [''[192.0.2.5]''] False = [''192.0.2.5''] \<and>
   parseTraceroute [''2001:4860:0:1::67e''] False = [''2001:4860:0:1::67e'']"
proof -
  let ?pre = "''  3    12 ms    11 ms    12 ms  router.example.net ''"
  let ?post' = "'' (2001:4860:0:1::67e)  12.3 ms''"
  have s1: "\<not> skipped (?pre @ ''[192.0.2.5]'' @ [])" by code_simp
  have c1: "CHR '':'' \<notin> set (?pre @ [])" by simp
  have r1: "rsearch ipv4_re ?pre = None" by code_simp
  have s2: "\<not> skipped ('' 3  '' @ ''2001:4860:0:1::67e'' @ ?post')" by code_simp
  have c2: "CHR '':'' \<notin> set '' 3  ''" by simp
  have p2: "?post' = [] \<or> \<not> cls_mem HexColon (hd ?post')" by (simp add: in_range_def byte_def)
  have s3: "\<not> skipped ([] @ ''[192.0.2.5]'' @ [])" by code_simp
  have r3: "rsearch ipv4_re [] = None" by code_simp
  have s4: "\<not> skipped ([] @ ''2001:4860:0:1::67e'' @ [])" by code_simp
  show ?thesis
    using parser_line_examples [of True ?pre "[]" "'' 3  ''" ?post' "[]"]
      parser_line_examples [of False "[]" "[]" "[]" "[]" "[]"]
      parser_line_examples [of False ?pre "[]" "'' 3  ''" ?post' "[]"]
      s1 c1 r1 s2 c2 p2 s3 r3 s4
    by simp
qed

end
